theory Spec2Isabelle
  imports Complex_Main "HOL-Library.Char_ord" "HOL-Library.List_Lexorder"
    "HOL-Library.Product_Lexorder"
begin

section \<open>Numbers and their rendering\<close>

text \<open>
  A pandas cell or aggregate is an IEEE 754 binary64 float. A finite nonzero float, and
  positive zero, is kept as the real number it denotes; negative zero, the two infinities
  and NaN are values of their own. Every arithmetic operation rounds its exact result to
  the nearest float, an exact tie going to the even significand.
\<close>

datatype num = Fin real | NegZero | PosInf | NegInf | NaN

text \<open>Decimal digits of a natural number, most significant first (Python's \<open>str\<close> of a
  non-negative integer).\<close>

definition digit_char :: "nat \<Rightarrow> char" where
  "digit_char d = ''0123456789'' ! d"

fun digits :: "nat \<Rightarrow> string" where
  "digits n = (if n < 10 then [digit_char n] else digits (n div 10) @ [digit_char (n mod 10)])"

declare digits.simps [simp del]

text \<open>Rounding to the nearest integer, an exact tie going to the even neighbour.\<close>

definition round_half_even :: "real \<Rightarrow> int" where
  "round_half_even x =
     (let f = \<lfloor>x\<rfloor>; d = x - of_int f
      in if d < 1 / 2 then f else if 1 / 2 < d then f + 1 else if even f then f else f + 1)"

subsection \<open>Rounding to binary64\<close>

definition pow2 :: "int \<Rightarrow> real" where
  "pow2 k = (if 0 \<le> k then 2 ^ nat k else 1 / 2 ^ nat (- k))"

text \<open>The binade of a positive number: the exponent \<open>e\<close> with
  \<open>2 ^ e \<le> x < 2 ^ (e + 1)\<close>, found by halving from above 1 and doubling from below.\<close>

function binade_up :: "real \<Rightarrow> int" where
  "binade_up x = (if 2 \<le> x then binade_up (x / 2) + 1 else 0)"
  by pat_completeness auto
termination
proof (relation "measure (\<lambda>x. nat \<lceil>x\<rceil>)")
  show "wf (measure (\<lambda>x. nat \<lceil>x\<rceil>))" by simp
next
  fix x :: real
  assume "2 \<le> x"
  then have "\<lceil>x / 2\<rceil> < \<lceil>x\<rceil>" by linarith
  moreover have "0 < \<lceil>x\<rceil>" using \<open>2 \<le> x\<close> by linarith
  ultimately show "(x / 2, x) \<in> measure (\<lambda>x. nat \<lceil>x\<rceil>)" by simp
qed

function binade_down :: "real \<Rightarrow> int" where
  "binade_down x = (if 0 < x \<and> x < 1 then binade_down (2 * x) - 1 else 0)"
  by pat_completeness auto
termination
proof (relation "measure (\<lambda>x. if 0 < x then nat \<lceil>1 / x\<rceil> else 0)")
  show "wf (measure (\<lambda>x. if 0 < x then nat \<lceil>1 / x\<rceil> else 0))" by simp
next
  fix x :: real
  assume a: "0 < x \<and> x < 1"
  define y where "y = 1 / x"
  have "1 < y" using a by (simp add: y_def)
  then have "1 < \<lceil>y\<rceil>" by linarith
  then have c: "2 \<le> \<lceil>y\<rceil>" by simp
  have "y / 2 \<le> real_of_int \<lceil>y\<rceil> / 2" by simp
  also have "\<dots> \<le> real_of_int (\<lceil>y\<rceil> - 1)" using c by simp
  finally have "\<lceil>y / 2\<rceil> \<le> \<lceil>y\<rceil> - 1" by (simp only: ceiling_le_iff)
  then have "\<lceil>y / 2\<rceil> < \<lceil>y\<rceil>" and "0 < \<lceil>y\<rceil>" using c by simp_all
  moreover have eq: "1 / (2 * x) = y / 2" "1 / x = y" by (simp_all add: y_def)
  ultimately have lt: "nat \<lceil>1 / (2 * x)\<rceil> < nat \<lceil>1 / x\<rceil>"
    unfolding eq by linarith
  have p: "0 < 2 * x" "0 < x" using a by simp_all
  show "(2 * x, x) \<in> measure (\<lambda>x. if 0 < x then nat \<lceil>1 / x\<rceil> else 0)"
    unfolding in_measure if_P [OF p(1)] if_P [OF p(2)] by (rule lt)
qed

declare binade_up.simps [simp del] binade_down.simps [simp del]

definition binade :: "real \<Rightarrow> int" where
  "binade x = (if 1 \<le> x then binade_up x else binade_down x)"

text \<open>
  The float nearest to a real number. The spacing of floats around \<open>x\<close> is
  \<open>2 ^ (e - 52)\<close> for the binade \<open>e\<close> of \<open>\<bar>x\<bar>\<close>, and never below \<open>2 ^ -1074\<close>
  (the subnormal range). A result of magnitude \<open>2 ^ 1024\<close> or more overflows to an
  infinity; a nonzero number that rounds to zero keeps its sign.
\<close>

definition round_float64 :: "real \<Rightarrow> num" where
  "round_float64 x =
     (if x = 0 then Fin 0
      else let u = pow2 (max (binade \<bar>x\<bar> - 52) (- 1074));
               r = real_of_int (round_half_even (x / u)) * u
           in if 2 ^ 1024 \<le> \<bar>r\<bar> then (if 0 < x then PosInf else NegInf)
              else if r = 0 then (if 0 < x then Fin 0 else NegZero)
              else Fin r)"

subsection \<open>Float arithmetic\<close>

text \<open>Addition. Opposite infinities give NaN; two negative zeros give negative zero;
  finite summands that cancel give positive zero.\<close>

fun fadd :: "num \<Rightarrow> num \<Rightarrow> num" where
  "fadd NaN y = NaN"
| "fadd x NaN = NaN"
| "fadd PosInf NegInf = NaN"
| "fadd NegInf PosInf = NaN"
| "fadd PosInf y = PosInf"
| "fadd x PosInf = PosInf"
| "fadd NegInf y = NegInf"
| "fadd x NegInf = NegInf"
| "fadd NegZero y = y"
| "fadd x NegZero = x"
| "fadd (Fin a) (Fin b) = (if a + b = 0 then Fin 0 else round_float64 (a + b))"

fun fneg :: "num \<Rightarrow> num" where
  "fneg (Fin a) = (if a = 0 then NegZero else Fin (- a))"
| "fneg NegZero = Fin 0"
| "fneg PosInf = NegInf"
| "fneg NegInf = PosInf"
| "fneg NaN = NaN"

definition fsub :: "num \<Rightarrow> num \<Rightarrow> num" where
  "fsub x y = fadd x (fneg y)"

text \<open>The square \<open>x ** 2\<close>.\<close>

fun fsquare :: "num \<Rightarrow> num" where
  "fsquare (Fin a) = round_float64 (a * a)"
| "fsquare NegZero = Fin 0"
| "fsquare PosInf = PosInf"
| "fsquare NegInf = PosInf"
| "fsquare NaN = NaN"

fun fsqrt :: "num \<Rightarrow> num" where
  "fsqrt (Fin a) = (if a < 0 then NaN else round_float64 (sqrt a))"
| "fsqrt NegZero = NegZero"
| "fsqrt PosInf = PosInf"
| "fsqrt NegInf = NaN"
| "fsqrt NaN = NaN"

text \<open>\<open>value / c\<close> for a positive finite constant \<open>c\<close>: 1,000, 1,000,000 or a row
  count.\<close>

fun div_num :: "num \<Rightarrow> real \<Rightarrow> num" where
  "div_num (Fin v) c = round_float64 (v / c)"
| "div_num NegZero c = NegZero"
| "div_num PosInf c = PosInf"
| "div_num NegInf c = NegInf"
| "div_num NaN c = NaN"

text \<open>\<open>value >= c\<close>: every comparison with NaN is false.\<close>

fun ge_num :: "num \<Rightarrow> real \<Rightarrow> bool" where
  "ge_num (Fin v) c = (c \<le> v)"
| "ge_num NegZero c = (c \<le> 0)"
| "ge_num PosInf c = True"
| "ge_num NegInf c = False"
| "ge_num NaN c = False"

text \<open>The sum of a float array: the elements are added to zero one after the other, in
  element order, each addition rounding.\<close>

definition sum_nums :: "num list \<Rightarrow> num" where
  "sum_nums vs = foldl fadd (Fin 0) vs"

text \<open>Floats other than NaN in their order, negative zero ranking with zero; and
  the equality \<open>==\<close> of floats, which NaN never satisfies.\<close>

fun rank :: "num \<Rightarrow> int \<times> real" where
  "rank (Fin a) = (0, a)"
| "rank NegZero = (0, 0)"
| "rank PosInf = (1, 0)"
| "rank NegInf = (- 1, 0)"
| "rank NaN = (2, 0)"

definition float_eq :: "num \<Rightarrow> num \<Rightarrow> bool" where
  "float_eq x y = (x \<noteq> NaN \<and> y \<noteq> NaN \<and> rank x = rank y)"

subsection \<open>Two-decimal rendering\<close>

text \<open>The hundredths of \<open>\<bar>v\<bar>\<close> after rounding, and the two fraction digits.\<close>

definition hundredths :: "real \<Rightarrow> nat" where
  "hundredths v = nat (round_half_even (\<bar>v\<bar> * 100))"

definition frac2 :: "nat \<Rightarrow> string" where
  "frac2 h = [digit_char ((h mod 100) div 10), digit_char (h mod 10)]"

definition sign_str :: "real \<Rightarrow> string" where
  "sign_str v = (if v < 0 then ''-'' else '''')"

text \<open>\<open>f"{v:.2f}"\<close> on a finite value: sign, integer digits, point, two digits, the
  exact value of the float rounded to hundredths. A negative value that rounds to zero
  keeps its sign, as in Python (\<open>-0.00\<close>).\<close>

definition fixed2 :: "real \<Rightarrow> string" where
  "fixed2 v = (let h = hundredths v in sign_str v @ digits (h div 100) @ ''.'' @ frac2 h)"

text \<open>Thousands grouping of a digit string, for the \<open>,\<close> option of the format
  specification: a comma before every group of three digits counted from the right.\<close>

fun group3 :: "string \<Rightarrow> string" where
  "group3 ds = (if length ds \<le> 3 then ds
                else group3 (take (length ds - 3) ds) @ '','' @ drop (length ds - 3) ds)"

declare group3.simps [simp del]

definition fixed2_grouped :: "real \<Rightarrow> string" where
  "fixed2_grouped v =
     (let h = hundredths v in sign_str v @ group3 (digits (h div 100)) @ ''.'' @ frac2 h)"

text \<open>\<open>f"{value:.2f}"\<close> and \<open>f"{value:,.2f}"\<close> on a float.\<close>

fun format_2f :: "num \<Rightarrow> string" where
  "format_2f (Fin v) = fixed2 v"
| "format_2f NegZero = ''-0.00''"
| "format_2f PosInf = ''inf''"
| "format_2f NegInf = ''-inf''"
| "format_2f NaN = ''nan''"

fun format_comma_2f :: "num \<Rightarrow> string" where
  "format_comma_2f (Fin v) = fixed2_grouped v"
| "format_comma_2f NegZero = ''-0.00''"
| "format_comma_2f PosInf = ''inf''"
| "format_comma_2f NegInf = ''-inf''"
| "format_comma_2f NaN = ''nan''"

subsection \<open>\<open>format_number\<close>\<close>

definition format_number :: "num \<Rightarrow> string" where
  "format_number value =
     (if ge_num value 1000000 then format_2f (div_num value 1000000) @ ''M''
      else if ge_num value 1000 then format_2f (div_num value 1000) @ ''K''
      else format_2f value)"

section \<open>The dashboard's data\<close>

text \<open>A parsed \<open>DateTime\<close> cell. pandas only builds valid timestamps, so the month is
  in 1..12 and the day is a day of that month.\<close>

record datetime =
  dt_year :: nat
  dt_month :: nat
  dt_day :: nat
  dt_hour :: nat
  dt_minute :: nat
  dt_second :: nat

text \<open>\<open>dt.day_name()\<close>: the weekday of a proleptic Gregorian date, by the
  month-offset table method; index 0 is Sunday.\<close>

definition month_offset :: "nat \<Rightarrow> int" where
  "month_offset m =
     (if 1 \<le> m \<and> m \<le> 12 then [0, 3, 2, 5, 0, 3, 5, 1, 4, 6, 2, 4] ! (m - 1) else 0)"

definition day_of_week :: "datetime \<Rightarrow> nat" where
  "day_of_week t =
     (let y = int (dt_year t) - (if dt_month t < 3 then 1 else 0)
      in nat ((y + y div 4 - y div 100 + y div 400 + month_offset (dt_month t)
               + int (dt_day t)) mod 7))"

definition day_name :: "datetime \<Rightarrow> string" where
  "day_name t =
     [''Sunday'', ''Monday'', ''Tuesday'', ''Wednesday'', ''Thursday'', ''Friday'',
      ''Saturday''] ! day_of_week t"

text \<open>A row of \<open>combined_dataset.csv\<close> as \<open>read_csv\<close> delivers it. The type of the
  \<open>Year\<close> column is whatever pandas infers from the directory names (integers for
  \<open>2020\<close>, strings otherwise), so it is a parameter; \<open>Month\<close> is read back as an
  integer (\<open>01\<close> becomes 1). The numeric cells are present and are finite floats.\<close>

record 'y csv_row =
  DateTime :: datetime
  Total :: real
  RATE_A :: real
  RATE_B :: real
  RATE_C :: real
  Year :: 'y
  Month :: int

record 'y row = "'y csv_row" +
  MonthName :: string

subsection \<open>\<open>month_name\<close> and \<open>load_data\<close>\<close>

definition month_names :: "(int \<times> string) list" where
  "month_names =
     [(1, ''January''), (2, ''February''), (3, ''March''), (4, ''April''), (5, ''May''),
      (6, ''June''), (7, ''July''), (8, ''August''), (9, ''September''), (10, ''October''),
      (11, ''November''), (12, ''December'')]"

definition month_name :: "int \<Rightarrow> string" where
  "month_name month_num = (case map_of month_names month_num of Some s \<Rightarrow> s | None \<Rightarrow> [])"

definition load_data :: "'y csv_row list \<Rightarrow> 'y row list" where
  "load_data csv =
     map (\<lambda>r. \<lparr>DateTime = DateTime r, Total = Total r, RATE_A = RATE_A r, RATE_B = RATE_B r,
               RATE_C = RATE_C r, Year = Year r, Month = Month r,
               MonthName = month_name (Month r)\<rparr>) csv"

section \<open>pandas operations used by the dashboard\<close>

datatype error = UnboundLocalError | ValueError | IndexError | KeyError

subsection \<open>Boolean masks and row selection\<close>

definition isin :: "'a list \<Rightarrow> 'a list \<Rightarrow> bool list" where
  "isin col vals = map (\<lambda>x. x \<in> set vals) col"

definition between :: "nat list \<Rightarrow> nat \<Rightarrow> nat \<Rightarrow> bool list" where
  "between col left right = map (\<lambda>x. left \<le> x \<and> x \<le> right) col"

definition mask_and :: "bool list \<Rightarrow> bool list \<Rightarrow> bool list" where
  "mask_and a b = map2 (\<and>) a b"

definition select_rows :: "'a list \<Rightarrow> bool list \<Rightarrow> 'a list" where
  "select_rows df msk = map fst (filter snd (zip df msk))"

subsection \<open>Column reductions\<close>

text \<open>\<open>sum()\<close> adds the cells up as floats, in row order; \<open>mean()\<close> divides that sum by
  the row count, and is NaN on no rows.\<close>

definition series_sum :: "real list \<Rightarrow> num" where
  "series_sum xs = sum_nums (map Fin xs)"

definition series_mean :: "real list \<Rightarrow> num" where
  "series_mean xs = (if xs = [] then NaN else div_num (series_sum xs) (real (length xs)))"

text \<open>\<open>max()\<close> and \<open>min()\<close> of a column of cells select a cell, so nothing is
  rounded.\<close>

definition series_max :: "real list \<Rightarrow> num" where
  "series_max xs = (case xs of [] \<Rightarrow> NaN | x # ys \<Rightarrow> Fin (fold max ys x))"

definition series_min :: "real list \<Rightarrow> num" where
  "series_min xs = (case xs of [] \<Rightarrow> NaN | x # ys \<Rightarrow> Fin (fold min ys x))"

text \<open>\<open>std()\<close>: the sample standard deviation (divisor \<open>n - 1\<close>), NaN below two values.
  The mean is subtracted from every cell, the differences are squared and summed, the sum
  is divided and the root taken, each step in floats.\<close>

definition series_std :: "real list \<Rightarrow> num" where
  "series_std xs =
     (if length xs < 2 then NaN
      else let avg = div_num (series_sum xs) (real (length xs));
               sqr = map (\<lambda>x. fsquare (fsub avg (Fin x))) xs
           in fsqrt (div_num (sum_nums sqr) (real (length xs - 1))))"

text \<open>\<open>column == value\<close> of a finite cell against an aggregate.\<close>

fun eq_num :: "real \<Rightarrow> num \<Rightarrow> bool" where
  "eq_num x (Fin v) = (x = v)"
| "eq_num x NegZero = (x = 0)"
| "eq_num x PosInf = False"
| "eq_num x NegInf = False"
| "eq_num x NaN = False"

text \<open>\<open>max()\<close> and \<open>min()\<close> of a series of aggregates: NaN entries are skipped, and of
  equal extremes the first is taken.\<close>

fun pick_first :: "(num \<Rightarrow> num \<Rightarrow> bool) \<Rightarrow> num \<Rightarrow> num list \<Rightarrow> num" where
  "pick_first better best [] = best"
| "pick_first better best (v # vs) = pick_first better (if better v best then v else best) vs"

definition values_max :: "num list \<Rightarrow> num" where
  "values_max vs =
     (case filter (\<lambda>v. v \<noteq> NaN) vs of
        [] \<Rightarrow> NaN
      | v # ws \<Rightarrow> pick_first (\<lambda>a b. rank b < rank a) v ws)"

definition values_min :: "num list \<Rightarrow> num" where
  "values_min vs =
     (case filter (\<lambda>v. v \<noteq> NaN) vs of
        [] \<Rightarrow> NaN
      | v # ws \<Rightarrow> pick_first (\<lambda>a b. rank a < rank b) v ws)"

subsection \<open>Grouping\<close>

text \<open>\<open>groupby(key)[col].sum()\<close> is a series indexed by the group keys in ascending
  order, one entry per key that occurs; \<open>mean()\<close> likewise. A series is kept as the list
  of its (label, value) pairs.\<close>

definition group_keys :: "('r \<Rightarrow> 'k::linorder) \<Rightarrow> 'r list \<Rightarrow> 'k list" where
  "group_keys key df = sort (remdups (map key df))"

definition groupby_sum :: "('r \<Rightarrow> 'k::linorder) \<Rightarrow> ('r \<Rightarrow> real) \<Rightarrow> 'r list \<Rightarrow> ('k \<times> num) list" where
  "groupby_sum key col df =
     map (\<lambda>k. (k, series_sum (map col (filter (\<lambda>r. key r = k) df)))) (group_keys key df)"

definition groupby_mean :: "('r \<Rightarrow> 'k::linorder) \<Rightarrow> ('r \<Rightarrow> real) \<Rightarrow> 'r list \<Rightarrow> ('k \<times> num) list" where
  "groupby_mean key col df =
     map (\<lambda>k. (k, series_mean (map col (filter (\<lambda>r. key r = k) df)))) (group_keys key df)"

subsection \<open>Labelled series\<close>

text \<open>\<open>idxmax()\<close> and \<open>idxmin()\<close>: the label of the first entry holding the extreme
  value; \<open>ValueError\<close> on an empty series.\<close>

definition first_label :: "('k \<times> num) list \<Rightarrow> num \<Rightarrow> error + 'k" where
  "first_label s m =
     (case filter (\<lambda>kv. float_eq (snd kv) m) s of [] \<Rightarrow> Inl ValueError | kv # _ \<Rightarrow> Inr (fst kv))"

definition idxmax :: "('k \<times> num) list \<Rightarrow> error + 'k" where
  "idxmax s = first_label s (values_max (map snd s))"

definition idxmin :: "('k \<times> num) list \<Rightarrow> error + 'k" where
  "idxmin s = first_label s (values_min (map snd s))"

text \<open>\<open>s[label]\<close>.\<close>

definition series_get :: "('k \<times> num) list \<Rightarrow> 'k \<Rightarrow> error + num" where
  "series_get s k = (case map_of s k of None \<Rightarrow> Inl KeyError | Some v \<Rightarrow> Inr v)"

text \<open>\<open>.iloc[0]\<close> on a column.\<close>

definition iloc0 :: "'a list \<Rightarrow> error + 'a" where
  "iloc0 xs = (case xs of [] \<Rightarrow> Inl IndexError | x # _ \<Rightarrow> Inr x)"

text \<open>\<open>mode()\<close>: the values of highest frequency, ascending, under a fresh index
  0, 1, ...; \<open>mode()[0]\<close> looks label 0 up and raises \<open>KeyError\<close> when the mode series is
  empty.\<close>

definition max_count :: "'a list \<Rightarrow> nat" where
  "max_count xs = fold max (map (count_list xs) xs) 0"

definition series_mode :: "('a::linorder) list \<Rightarrow> 'a list" where
  "series_mode xs = sort (filter (\<lambda>v. count_list xs v = max_count xs) (remdups xs))"

definition mode0 :: "('a::linorder) list \<Rightarrow> error + 'a" where
  "mode0 xs = (case series_mode xs of [] \<Rightarrow> Inl KeyError | v # _ \<Rightarrow> Inr v)"

text \<open>\<open>sort_values(ascending=False)\<close>: entries by descending value, equal values in
  their previous order, NaN entries last.\<close>

definition desc_key :: "num \<Rightarrow> int \<times> real" where
  "desc_key v = (if v = NaN then (2, 0) else (- fst (rank v), - snd (rank v)))"

definition sort_values_desc :: "('k \<times> num) list \<Rightarrow> ('k \<times> num) list" where
  "sort_values_desc s = sort_key (\<lambda>kv. desc_key (snd kv)) s"

section \<open>\<open>main\<close>: filtering and the report\<close>

text \<open>A raised exception ends \<open>main\<close>; \<open>bind_err\<close> sequences two steps so.\<close>

definition bind_err :: "error + 'a \<Rightarrow> ('a \<Rightarrow> error + 'b) \<Rightarrow> error + 'b" where
  "bind_err m f = (case m of Inl e \<Rightarrow> Inl e | Inr x \<Rightarrow> f x)"

text \<open>The header block: \<open>start_year\<close>, \<open>end_year\<close> and \<open>duration\<close> are bound only when
  the year selection is non-empty.\<close>

definition dynamic_header :: "('y::linorder) list \<Rightarrow> ('y \<times> 'y \<times> nat) option" where
  "dynamic_header year_filter =
     (case year_filter of
        [] \<Rightarrow> None
      | y # ys \<Rightarrow> Some (fold min ys y, fold max ys y, length year_filter))"

text \<open>The filter: three masks joined by \<open>&\<close>, then row selection.\<close>

definition filter_data ::
  "('y, 'z) row_scheme list \<Rightarrow> 'y list \<Rightarrow> int list \<Rightarrow> nat \<times> nat \<Rightarrow> ('y, 'z) row_scheme list" where
  "filter_data data year_filter month_filter day_filter =
     select_rows data
       (mask_and
          (mask_and (isin (map Year data) year_filter) (isin (map Month data) month_filter))
          (between (map (\<lambda>r. dt_day (DateTime r)) data) (fst day_filter) (snd day_filter)))"

text \<open>Overview metrics: the total with thousands separators, the mean through
  \<open>format_number\<close>.\<close>

definition total_energy_display :: "('y, 'z) row_scheme list \<Rightarrow> string" where
  "total_energy_display filtered_data =
     format_comma_2f (series_sum (map Total filtered_data))"

definition avg_energy_display :: "('y, 'z) row_scheme list \<Rightarrow> string" where
  "avg_energy_display filtered_data = format_number (series_mean (map Total filtered_data))"

text \<open>The label over each bar of the yearly chart.\<close>

definition bar_labels :: "('k \<times> num) list \<Rightarrow> ('k \<times> string) list" where
  "bar_labels yearly_data = map (\<lambda>kv. (fst kv, format_number (snd kv))) yearly_data"

text \<open>Summary items 1 to 3 share one shape: \<open>idxmax\<close>, \<open>idxmin\<close>, then the two lines
  with the value looked up at each label.\<close>

definition usage_extremes :: "('k \<times> num) list \<Rightarrow> error + (('k \<times> string) \<times> ('k \<times> string))" where
  "usage_extremes usage =
     bind_err (idxmax usage) (\<lambda>max_key.
     bind_err (idxmin usage) (\<lambda>min_key.
     bind_err (series_get usage max_key) (\<lambda>max_val.
     bind_err (series_get usage min_key) (\<lambda>min_val.
       Inr ((max_key, format_number max_val), (min_key, format_number min_val))))))"

text \<open>Item 4: the rows holding the maximum \<open>Total\<close>, and the \<open>DateTime\<close> of the first.\<close>

definition max_total_row :: "('y, 'z) row_scheme list \<Rightarrow> ('y, 'z) row_scheme list" where
  "max_total_row filtered_data =
     filter (\<lambda>r. eq_num (Total r) (series_max (map Total filtered_data))) filtered_data"

definition max_datetime :: "('y, 'z) row_scheme list \<Rightarrow> error + datetime" where
  "max_datetime filtered_data = iloc0 (map DateTime (max_total_row filtered_data))"

text \<open>Item 5: the four statistics of one rate column, each through \<open>format_number\<close>.\<close>

definition rate_line :: "string \<Rightarrow> real list \<Rightarrow> string \<times> string \<times> string \<times> string \<times> string" where
  "rate_line rate col =
     (rate, format_number (series_max col), format_number (series_min col),
      format_number (series_mean col), format_number (series_std col))"

definition rate_stats ::
  "('y, 'z) row_scheme list \<Rightarrow> (string \<times> string \<times> string \<times> string \<times> string) list" where
  "rate_stats filtered_data =
     [rate_line ''RATE A'' (map RATE_A filtered_data),
      rate_line ''RATE B'' (map RATE_B filtered_data),
      rate_line ''RATE C'' (map RATE_C filtered_data)]"

text \<open>The most frequent hour among the rows holding the maximum \<open>Total\<close>.\<close>

definition peak_hour_freq :: "('y, 'z) row_scheme list \<Rightarrow> error + nat" where
  "peak_hour_freq filtered_data =
     mode0 (map (\<lambda>r. dt_hour (DateTime r)) (max_total_row filtered_data))"

text \<open>Weekday totals, sorted by descending value; the lines show \<open>idxmax\<close> with
  \<open>max()\<close> and \<open>idxmin\<close> with \<open>min()\<close>.\<close>

definition weekday_usage :: "('y, 'z) row_scheme list \<Rightarrow> (string \<times> num) list" where
  "weekday_usage filtered_data =
     sort_values_desc (groupby_sum (\<lambda>r. day_name (DateTime r)) Total filtered_data)"

definition weekday_extremes :: "(string \<times> num) list \<Rightarrow> error + ((string \<times> string) \<times> (string \<times> string))" where
  "weekday_extremes usage =
     bind_err (idxmax usage) (\<lambda>max_day.
     bind_err (idxmin usage) (\<lambda>min_day.
       Inr ((max_day, format_number (values_max (map snd usage))),
            (min_day, format_number (values_min (map snd usage))))))"

text \<open>What one run of the page shows. Labels and their two languages are left out: each
  line is kept as the values interpolated into it, a magnitude as the string displayed.\<close>

record 'y report =
  header_years :: "'y \<times> 'y \<times> nat"
  total_energy_metric :: string
  avg_energy_metric :: string
  yearly_bar_labels :: "('y \<times> string) list"
  monthly_data :: "(('y \<times> int \<times> string) \<times> num) list"
  daily_data :: "(nat \<times> num) list"
  heatmap_data :: "((nat \<times> nat) \<times> num) list"
  max_year_line :: "'y \<times> string"
  min_year_line :: "'y \<times> string"
  max_month_line :: "string \<times> string"
  min_month_line :: "string \<times> string"
  max_hour_line :: "nat \<times> string"
  min_hour_line :: "nat \<times> string"
  max_datetime_line :: "datetime \<times> string"
  rate_lines :: "(string \<times> string \<times> string \<times> string \<times> string) list"
  peak_hour_line :: nat
  max_weekday_line :: "string \<times> string"
  min_weekday_line :: "string \<times> string"
  data_table :: "('y row \<times> string) list"

text \<open>\<open>main\<close>, in the order of its statements. The chart and widget calls are outside the
  model; their inputs are kept. The first use of \<open>start_year\<close> after the header block is
  the heading of the yearly section, which raises when the name was never bound.\<close>

definition main ::
  "('y::linorder) csv_row list \<Rightarrow> 'y list \<Rightarrow> int list \<Rightarrow> nat \<times> nat \<Rightarrow> error + 'y report" where
  "main csv year_filter month_filter day_filter =
     (let data = load_data csv;
          filtered_data = filter_data data year_filter month_filter day_filter
      in case dynamic_header year_filter of
           None \<Rightarrow> Inl UnboundLocalError
         | Some header \<Rightarrow>
     bind_err (usage_extremes (groupby_sum Year Total filtered_data)) (\<lambda>years.
     bind_err (usage_extremes (groupby_sum Month Total filtered_data)) (\<lambda>months.
     bind_err (usage_extremes (groupby_sum (\<lambda>r. dt_hour (DateTime r)) Total filtered_data)) (\<lambda>hours.
     bind_err (max_datetime filtered_data) (\<lambda>max_dt.
     bind_err (peak_hour_freq filtered_data) (\<lambda>peak_hour.
     bind_err (weekday_extremes (weekday_usage filtered_data)) (\<lambda>weekdays.
       Inr \<lparr>header_years = header,
            total_energy_metric = total_energy_display filtered_data,
            avg_energy_metric = avg_energy_display filtered_data,
            yearly_bar_labels = bar_labels (groupby_sum Year Total filtered_data),
            monthly_data = groupby_sum (\<lambda>r. (Year r, Month r, MonthName r)) Total filtered_data,
            daily_data = groupby_mean (\<lambda>r. dt_hour (DateTime r)) Total filtered_data,
            heatmap_data =
              groupby_mean (\<lambda>r. (dt_hour (DateTime r), dt_day (DateTime r))) Total filtered_data,
            max_year_line = fst years,
            min_year_line = snd years,
            max_month_line = (month_name (fst (fst months)), snd (fst months)),
            min_month_line = (month_name (fst (snd months)), snd (snd months)),
            max_hour_line = fst hours,
            min_hour_line = snd hours,
            max_datetime_line =
              (max_dt, format_number (series_max (map Total filtered_data))),
            rate_lines = rate_stats filtered_data,
            peak_hour_line = peak_hour,
            max_weekday_line = fst weekdays,
            min_weekday_line = snd weekdays,
            data_table = map (\<lambda>r. (r, day_name (DateTime r))) filtered_data\<rparr>)))))))"

section \<open>The dataset assembler (\<open>combined_dataset.py\<close>)\<close>

text \<open>
  The script's input is the directory tree under \<open>preprocessed_data_dir\<close>, in the order
  \<open>os.listdir\<close> returns it. An entry of the root is a folder with its own listing, or
  something else. A file of a year folder carries what \<open>pd.read_csv\<close> does on it: the
  rows of the parsed frame, or the text of the exception raised.
\<close>

datatype 'r dir_entry = Folder "(string \<times> (string + 'r list)) list" | NotFolder

type_synonym 'r tree = "(string \<times> 'r dir_entry) list"

text \<open>A row of the combined frame: the parsed row and the two added columns.\<close>

record 'r combined_row =
  cells :: 'r
  Year_col :: string
  Month_col :: string

text \<open>The script's variables that the loop updates: the list of frames, and what has been
  printed.\<close>

record 'r assembler_state =
  data_frames :: "'r combined_row list list"
  printed :: "string list"

definition preprocessed_data_dir :: string where
  "preprocessed_data_dir = ''../preprocessingdata''"

text \<open>\<open>os.path.join\<close> on a non-empty directory path without a trailing separator and
  a listed name.\<close>

definition path_join :: "string \<Rightarrow> string \<Rightarrow> string" where
  "path_join a b = a @ ''/'' @ b"

definition endswith :: "string \<Rightarrow> string \<Rightarrow> bool" where
  "endswith s suffix =
     (length suffix \<le> length s \<and> drop (length s - length suffix) s = suffix)"

definition error_message :: "string \<Rightarrow> string \<Rightarrow> string" where
  "error_message file_path e = ''Error reading file '' @ file_path @ '': '' @ e"

definition tag_frame :: "string \<Rightarrow> string \<Rightarrow> 'r list \<Rightarrow> 'r combined_row list" where
  "tag_frame year file df =
     map (\<lambda>r. \<lparr>cells = r, Year_col = year, Month_col = take 2 file\<rparr>) df"

text \<open>The body of the inner loop, for one listed file.\<close>

definition process_file ::
  "string \<Rightarrow> string \<Rightarrow> string \<times> (string + 'r list) \<Rightarrow> 'r assembler_state \<Rightarrow> 'r assembler_state" where
  "process_file year year_path entry st =
     (let file = fst entry
      in if endswith file ''.csv'' then
           (case snd entry of
              Inr df \<Rightarrow> st\<lparr>data_frames := data_frames st @ [tag_frame year file df]\<rparr>
            | Inl e \<Rightarrow> st\<lparr>printed := printed st @ [error_message (path_join year_path file) e]\<rparr>)
         else st)"

text \<open>The body of the outer loop, for one entry of the root.\<close>

definition process_year :: "string \<times> 'r dir_entry \<Rightarrow> 'r assembler_state \<Rightarrow> 'r assembler_state" where
  "process_year entry st =
     (let year = fst entry; year_path = path_join preprocessed_data_dir year
      in case snd entry of
           Folder files \<Rightarrow> fold (process_file year year_path) files st
         | NotFolder \<Rightarrow> st)"

definition scan :: "'r tree \<Rightarrow> 'r assembler_state" where
  "scan listing = fold process_year listing \<lparr>data_frames = [], printed = []\<rparr>"

text \<open>The end of the script: what is on standard output and what, if anything, was
  written to \<open>combined_dataset.csv\<close>.\<close>

record 'r outcome =
  output_file :: "'r combined_row list option"
  stdout :: "string list"

definition no_data_message :: string where
  "no_data_message = ''No data found in preprocessingdata folder.''"

definition saved_message :: string where
  "saved_message =
     ''Combined dataset saved as '' @ [CHR 0x27] @ ''combined_dataset.csv'' @ [CHR 0x27]"

definition assemble :: "'r tree \<Rightarrow> 'r outcome" where
  "assemble listing =
     (let st = scan listing
      in if data_frames st \<noteq> [] then
           \<lparr>output_file = Some (concat (data_frames st)),
            stdout = printed st @ [''Dataset created successfully!'', saved_message]\<rparr>
         else
           \<lparr>output_file = None, stdout = printed st @ [no_data_message]\<rparr>)"

subsection \<open>The files the script reads, for stating what it does\<close>

text \<open>The candidate files of a tree, in traversal order: the \<open>.csv\<close> entries of the
  folders of the root, each as (year, file name, outcome of \<open>read_csv\<close>).\<close>

definition folder_candidates ::
  "string \<Rightarrow> (string \<times> (string + 'r list)) list \<Rightarrow> (string \<times> string \<times> (string + 'r list)) list" where
  "folder_candidates year files =
     map (\<lambda>f. (year, fst f, snd f)) (filter (\<lambda>f. endswith (fst f) ''.csv'') files)"

definition candidates :: "'r tree \<Rightarrow> (string \<times> string \<times> (string + 'r list)) list" where
  "candidates listing =
     concat (map (\<lambda>entry. case snd entry of
                             Folder files \<Rightarrow> folder_candidates (fst entry) files
                           | NotFolder \<Rightarrow> []) listing)"

text \<open>The candidates that parse, with their rows, and those that do not, with the
  exception text.\<close>

definition parsed :: "(string \<times> string \<times> (string + 'r list)) list \<Rightarrow> (string \<times> string \<times> 'r list) list" where
  "parsed cs =
     concat (map (\<lambda>c. case snd (snd c) of Inr df \<Rightarrow> [(fst c, fst (snd c), df)] | Inl e \<Rightarrow> []) cs)"

definition failed :: "(string \<times> string \<times> (string + 'r list)) list \<Rightarrow> (string \<times> string \<times> string) list" where
  "failed cs =
     concat (map (\<lambda>c. case snd (snd c) of Inr df \<Rightarrow> [] | Inl e \<Rightarrow> [(fst c, fst (snd c), e)]) cs)"

definition valid_files :: "'r tree \<Rightarrow> (string \<times> string \<times> 'r list) list" where
  "valid_files listing = parsed (candidates listing)"

definition invalid_files :: "'r tree \<Rightarrow> (string \<times> string \<times> string) list" where
  "invalid_files listing = failed (candidates listing)"

text \<open>The tagged frame of a valid file: every row with the folder's name as year and the
  first two characters of the file's name as month, in the file's row order. The
  diagnostic of an invalid file: its path and the exception text.\<close>

definition frame_of :: "string \<times> string \<times> 'r list \<Rightarrow> 'r combined_row list" where
  "frame_of v =
     map (\<lambda>r. \<lparr>cells = r, Year_col = fst v, Month_col = take 2 (fst (snd v))\<rparr>) (snd (snd v))"

definition diagnostic_of :: "string \<times> string \<times> string \<Rightarrow> string" where
  "diagnostic_of v =
     ''Error reading file '' @ preprocessed_data_dir @ ''/'' @ fst v @ ''/'' @ fst (snd v)
       @ '': '' @ snd (snd v)"

subsection \<open>Two small trees\<close>

text \<open>Two year folders with three \<open>.csv\<close> files, one of them unreadable, a file of
  another kind and a stray file in the root; and a tree whose only \<open>.csv\<close> file is
  unreadable.\<close>

definition example_tree :: "nat tree" where
  "example_tree =
     [(''2020'', Folder [(''01_jan.csv'', Inr [1, 2]), (''02.csv'', Inl ''bad''),
                         (''notes.txt'', Inr [9])]),
      (''readme.md'', NotFolder),
      (''2021'', Folder [(''03.csv'', Inr [7])])]"

definition invalid_tree :: "nat tree" where
  "invalid_tree = [(''2020'', Folder [(''02.csv'', Inl ''bad''), (''notes.txt'', Inr [9])])]"

section \<open>Vocabulary for stating the report's properties\<close>

text \<open>The filter predicate in words: year selected, month selected, day of the month in
  the inclusive range.\<close>

definition passes :: "'y list \<Rightarrow> int list \<Rightarrow> nat \<times> nat \<Rightarrow> ('y, 'z) row_scheme \<Rightarrow> bool" where
  "passes year_filter month_filter day_filter r =
     (Year r \<in> set year_filter \<and> Month r \<in> set month_filter \<and>
      fst day_filter \<le> dt_day (DateTime r) \<and> dt_day (DateTime r) \<le> snd day_filter)"

text \<open>The rows holding the largest \<open>Total\<close>, and the position of the first of them.\<close>

definition tied_rows :: "('y, 'z) row_scheme list \<Rightarrow> ('y, 'z) row_scheme list" where
  "tied_rows fd = filter (\<lambda>r. Total r = Max (set (map Total fd))) fd"

definition first_max_index :: "('y, 'z) row_scheme list \<Rightarrow> nat \<Rightarrow> bool" where
  "first_max_index fd i =
     (i < length fd \<and> Total (fd ! i) = Max (set (map Total fd)) \<and>
      (\<forall>j<i. Total (fd ! j) \<noteq> Max (set (map Total fd))))"

text \<open>A mode of a list is a member no other member occurs more often than; the smallest
  mode is below every other mode.\<close>

definition is_mode :: "'a list \<Rightarrow> 'a \<Rightarrow> bool" where
  "is_mode xs h = (h \<in> set xs \<and> (\<forall>h'\<in>set xs. count_list xs h' \<le> count_list xs h))"

definition smallest_mode :: "('a::linorder) list \<Rightarrow> 'a \<Rightarrow> bool" where
  "smallest_mode xs h = (is_mode xs h \<and> (\<forall>h'\<in>set xs. is_mode xs h' \<longrightarrow> h \<le> h'))"

subsection \<open>A small dataset\<close>

text \<open>Four readings over two years, the largest \<open>Total\<close> occurring twice.\<close>

definition reading :: "nat \<Rightarrow> nat \<Rightarrow> nat \<Rightarrow> nat \<Rightarrow> real \<Rightarrow> int csv_row" where
  "reading y m d h t =
     \<lparr>DateTime = \<lparr>dt_year = y, dt_month = m, dt_day = d, dt_hour = h, dt_minute = 0,
                  dt_second = 0\<rparr>,
      Total = t, RATE_A = 1, RATE_B = 2, RATE_C = 3, Year = int y, Month = int m\<rparr>"

definition example_csv :: "int csv_row list" where
  "example_csv =
     [reading 2020 1 5 3 10, reading 2020 1 6 3 20, reading 2021 2 7 5 20,
      reading 2021 3 8 3 5]"

text \<open>A single reading of 5,000.\<close>

definition peak_csv :: "int csv_row list" where
  "peak_csv = [reading 2020 1 5 3 5000]"

text \<open>A reading of \<open>2 ^ 53\<close> in one year and two readings of 1 in the next, all
  floats.\<close>

definition drift_csv :: "int csv_row list" where
  "drift_csv =
     [reading 2020 1 5 3 9007199254740992, reading 2021 2 7 5 1, reading 2021 3 8 3 1]"

text \<open>Columns whose sums are exact in floats: whole numbers whose absolute values add up
  to at most \<open>2 ^ 53\<close>.\<close>

definition whole_bounded :: "real list \<Rightarrow> bool" where
  "whole_bounded xs = ((\<forall>x\<in>set xs. x \<in> \<int>) \<and> sum_list (map abs xs) \<le> 2 ^ 53)"

text \<open>Readings of 0.1 in one year and of 0.2, 0.3 and 0.3 in the next, each cell the
  float nearest to the decimal.\<close>

definition tenths_csv :: "int csv_row list" where
  "tenths_csv =
     [reading 2020 1 5 3 (3602879701896397 / 2 ^ 55),
      reading 2021 1 6 3 (3602879701896397 / 2 ^ 54),
      reading 2021 2 7 5 (5404319552844595 / 2 ^ 54),
      reading 2021 3 8 3 (5404319552844595 / 2 ^ 54)]"

section \<open>Floats that are exact\<close>

lemmas float_eval = round_float64_def binade_def binade_up.simps binade_down.simps pow2_def
  round_half_even_def

lemma round_half_even_of_int: "round_half_even (real_of_int k) = k"
  by (simp add: round_half_even_def)

lemma binade_up_bounds:
  "1 \<le> x \<Longrightarrow> 0 \<le> binade_up x \<and> 2 ^ nat (binade_up x) \<le> x \<and> x < 2 * 2 ^ nat (binade_up x)"
proof (induction x rule: binade_up.induct)
  case (1 x)
  show ?case
  proof (cases "2 \<le> x")
    case False
    with "1.prems" show ?thesis by (simp add: binade_up.simps)
  next
    case True
    then have "1 \<le> x / 2" by simp
    from "1.IH" [OF True this] have ih: "0 \<le> binade_up (x / 2)"
      "2 ^ nat (binade_up (x / 2)) \<le> x / 2" "x / 2 < 2 * 2 ^ nat (binade_up (x / 2))"
      by simp_all
    have e: "binade_up x = binade_up (x / 2) + 1"
      using True by (simp add: binade_up.simps)
    have n: "nat (binade_up (x / 2) + 1) = Suc (nat (binade_up (x / 2)))"
      using ih(1) by simp
    show ?thesis
      unfolding e n using ih by simp
  qed
qed

text \<open>A whole number of magnitude at most \<open>2 ^ 53\<close> is a float.\<close>

lemma round_float64_of_int:
  assumes "\<bar>n\<bar> \<le> 2 ^ 53"
  shows "round_float64 (real_of_int n) = Fin (real_of_int n)"
proof (cases "n = 0")
  case True
  then show ?thesis by (simp add: round_float64_def)
next
  case False
  define x where "x = \<bar>real_of_int n\<bar>"
  define e where "e = binade_up x"
  have x1: "1 \<le> x" using False by (simp add: x_def)
  have xb: "x \<le> 2 ^ 53"
  proof -
    have "real_of_int \<bar>n\<bar> \<le> real_of_int (2 ^ 53)" using assms by (simp only: of_int_le_iff)
    then show ?thesis by (simp add: x_def)
  qed
  from binade_up_bounds [OF x1] have e0: "0 \<le> e" and lo: "2 ^ nat e \<le> x" and hi: "x < 2 * 2 ^ nat e"
    by (simp_all add: e_def)
  have "(2::real) ^ nat e \<le> 2 ^ 53" using lo xb by simp
  then have "nat e \<le> 53" by (simp only: power_increasing_iff one_less_numeral_iff semiring_norm)
  then have e53: "e \<le> 53" using e0 by simp
  have b: "binade \<bar>real_of_int n\<bar> = e"
    using x1 by (simp add: binade_def e_def x_def)
  have keep: "real_of_int (round_half_even (real_of_int n / pow2 (e - 52))) * pow2 (e - 52)
                = real_of_int n"
  proof (cases "e = 53")
    case True
    then have "x = 2 ^ 53" using lo xb by simp
    then have "\<bar>n\<bar> = 2 ^ 53"
    proof -
      assume "x = 2 ^ 53"
      then have "real_of_int \<bar>n\<bar> = real_of_int (2 ^ 53)" by (simp add: x_def)
      then show ?thesis by (simp only: of_int_eq_iff)
    qed
    then have "even n" by (cases "0 \<le> n") (simp_all add: abs_if split: if_splits, presburger+)
    then obtain k where k: "n = 2 * k" by (auto elim: evenE)
    have "real_of_int n / pow2 (e - 52) = real_of_int k"
      using True by (simp add: pow2_def k)
    then show ?thesis using True by (simp add: round_half_even_of_int pow2_def k)
  next
    case False
    with e53 have le: "e \<le> 52" by simp
    define m where "m = nat (52 - e)"
    have p: "pow2 (e - 52) = 1 / 2 ^ m"
    proof (cases "e = 52")
      case True
      then show ?thesis by (simp add: pow2_def m_def)
    next
      case False
      with le have "\<not> 0 \<le> e - 52" by simp
      then show ?thesis by (simp add: pow2_def m_def)
    qed
    have "real_of_int n / pow2 (e - 52) = real_of_int (n * 2 ^ m)"
      by (simp add: p)
    then have "round_half_even (real_of_int n / pow2 (e - 52)) = n * 2 ^ m"
      by (simp only: round_half_even_of_int)
    then show ?thesis by (simp add: p)
  qed
  have u: "max (e - 52) (- 1074) = e - 52" using e0 by simp
  have big: "\<not> (2::real) ^ 1024 \<le> \<bar>real_of_int n\<bar>"
  proof -
    have "x \<le> 2 ^ 53" by (rule xb)
    also have "(2::real) ^ 53 < 2 ^ 1024" by simp
    finally show ?thesis by (simp add: x_def)
  qed
  show ?thesis
    using False big by (simp add: round_float64_def b u keep Let_def)
qed

lemma round_float64_whole:
  assumes "x \<in> \<int>" and "\<bar>x\<bar> \<le> 2 ^ 53"
  shows "round_float64 x = Fin x"
proof -
  from assms(1) obtain n where n: "x = real_of_int n" by (auto elim: Ints_cases)
  have "real_of_int \<bar>n\<bar> \<le> real_of_int (2 ^ 53)" using assms(2) by (simp add: n)
  then have "\<bar>n\<bar> \<le> 2 ^ 53" by (simp only: of_int_le_iff)
  then show ?thesis unfolding n by (rule round_float64_of_int)
qed


section \<open>Properties of \<open>format_number\<close>\<close>

lemmas render_defs =
  fixed2_def fixed2_grouped_def hundredths_def round_half_even_def sign_str_def frac2_def
  digits.simps digit_char_def group3.simps

text \<open>The two-decimal rendering shows the hundredths nearest to the magnitude.\<close>

lemma round_half_even_nearest: "\<bar>real_of_int (round_half_even x) - x\<bar> \<le> 1 / 2"
  unfolding round_half_even_def Let_def by (auto; linarith)

lemma round_half_even_nonneg: "0 \<le> x \<Longrightarrow> 0 \<le> round_half_even x"
  unfolding round_half_even_def Let_def by (auto; linarith)

lemma hundredths_nearest: "\<bar>real (hundredths v) - \<bar>v\<bar> * 100\<bar> \<le> 1 / 2"
proof -
  have "0 \<le> round_half_even (\<bar>v\<bar> * 100)"
    by (rule round_half_even_nonneg) simp
  then have "real (hundredths v) = real_of_int (round_half_even (\<bar>v\<bar> * 100))"
    by (simp add: hundredths_def)
  then show ?thesis
    using round_half_even_nearest [of "\<bar>v\<bar> * 100"] by simp
qed

lemma digit_char_range: "d < 10 \<Longrightarrow> digit_char d \<in> set ''0123456789''"
  unfolding digit_char_def by (rule nth_mem) simp

lemma last_fixed2: "last (fixed2 v) = digit_char (hundredths v mod 10)"
  by (simp add: fixed2_def frac2_def Let_def)

lemma fixed2_no_suffix: "last (fixed2 v) \<noteq> CHR ''K'' \<and> last (fixed2 v) \<noteq> CHR ''M''"
proof -
  have "last (fixed2 v) \<in> set ''0123456789''"
    unfolding last_fixed2 by (rule digit_char_range) simp
  then show ?thesis by auto
qed

text \<open>The floats nearest to 5000 / 1000, 1015 / 1000 and 2345678 / 1000000.\<close>

lemma example_quotients:
  "round_float64 5 = Fin 5"
  "round_float64 (203 / 200) = Fin (4571153621781053 / 2 ^ 52)"
  "round_float64 (1172839 / 500000) = Fin (5281997283365585 / 2 ^ 51)"
  by (simp_all add: float_eval)


text \<open>
  Claim C6. \<open>format_number\<close> maps a value of at least 1,000,000 to the two-decimal
  rendering of the value divided by 1,000,000 followed by \<open>M\<close>, a value from 1,000 up to
  but excluding 1,000,000 to the rendering of the value divided by 1,000 followed by
  \<open>K\<close>, and any other value (NaN, negative zero and negative infinity included) to its
  plain two-decimal rendering; the quotient is the float quotient, and positive infinity
  is shown as \<open>infM\<close>. 500, 5,000 and 5,000,000 give \<open>500.00\<close>, \<open>5.00K\<close> and
  \<open>5.00M\<close>.
\<close>

theorem format_number_scaling:
  "(1000000 \<le> v \<longrightarrow> format_number (Fin v) = format_2f (round_float64 (v / 1000000)) @ ''M'') \<and>
   (1000 \<le> v \<and> v < 1000000 \<longrightarrow>
      format_number (Fin v) = format_2f (round_float64 (v / 1000)) @ ''K'') \<and>
   (v < 1000 \<longrightarrow> format_number (Fin v) = fixed2 v) \<and>
   format_number NaN = ''nan'' \<and>
   format_number NegZero = ''-0.00'' \<and>
   format_number PosInf = ''infM'' \<and>
   format_number NegInf = ''-inf'' \<and>
   format_number (Fin 500) = ''500.00'' \<and>
   format_number (Fin 5000) = ''5.00K'' \<and>
   format_number (Fin 5000000) = ''5.00M''"
  by (simp add: format_number_def example_quotients render_defs)


text \<open>For 1,015 the float quotient lies just below 1.015, and \<open>1.01K\<close> is shown.\<close>

theorem format_number_scaling_witness:
  "format_number (Fin 2345678) = ''2.35M'' \<and> format_number (Fin 1015) = ''1.01K'' \<and>
   format_number (Fin 999.5) = ''999.50''"
  using format_number_scaling [of 2345678] format_number_scaling [of 1015]
    format_number_scaling [of "999.5"]
  by (simp add: example_quotients render_defs)


text \<open>
  Claim C10. Every value strictly below 1,000, every negative value included, is rendered
  plainly with two decimals and no \<open>K\<close> or \<open>M\<close> suffix: the thresholds compare the signed
  value. So -5,000,000 is shown as \<open>-5000000.00\<close>.
\<close>

theorem format_number_below_thousand:
  "v < 1000 \<Longrightarrow>
     format_number (Fin v) = fixed2 v \<and>
     last (format_number (Fin v)) \<noteq> CHR ''K'' \<and> last (format_number (Fin v)) \<noteq> CHR ''M''"
  using fixed2_no_suffix [of v] by (simp add: format_number_def)

theorem format_number_below_thousand_witness:
  "(- 5000000 :: real) < 1000 \<and> format_number (Fin (- 5000000)) = ''-5000000.00''"
  using format_number_below_thousand [of "- 5000000"] by (simp add: render_defs)

section \<open>The filter\<close>

lemma select_rows_map: "select_rows df (map p df) = filter p df"
  by (induction df) (simp_all add: select_rows_def)

lemma mask_and_map: "mask_and (map p xs) (map q xs) = map (\<lambda>x. p x \<and> q x) xs"
  by (induction xs) (simp_all add: mask_and_def)

text \<open>Masking and selecting is filtering by the predicate: the filtered dataset is the
  sub-sequence of the passing rows, in their order and with their multiplicity.\<close>

lemma filter_data_eq_filter:
  "filter_data data year_filter month_filter day_filter =
     filter (passes year_filter month_filter day_filter) data"
proof -
  have "mask_and
          (mask_and (isin (map Year data) year_filter) (isin (map Month data) month_filter))
          (between (map (\<lambda>r. dt_day (DateTime r)) data) (fst day_filter) (snd day_filter))
        = map (passes year_filter month_filter day_filter) data"
    by (simp add: isin_def between_def mask_and_map passes_def o_def)
  then show ?thesis
    by (simp add: filter_data_def select_rows_map)
qed

lemma length_filter_mono:
  "(\<And>x. x \<in> set xs \<Longrightarrow> p x \<Longrightarrow> q x) \<Longrightarrow> length (filter p xs) \<le> length (filter q xs)"
  by (induction xs) auto

section \<open>The maximum and the mode\<close>

lemma series_max_eq_Max:
  assumes "xs \<noteq> []"
  shows "series_max xs = Fin (Max (set xs))"
proof (cases xs)
  case Nil
  with assms show ?thesis by simp
next
  case (Cons x ys)
  have "fold max ys x = Max (set (x # ys))"
    by (rule Max.set_eq_fold [symmetric])
  with Cons show ?thesis by (simp add: series_max_def)
qed

lemma max_total_row_eq_tied: "fd \<noteq> [] \<Longrightarrow> max_total_row fd = tied_rows fd"
  by (simp add: max_total_row_def tied_rows_def series_max_eq_Max)

lemma tied_rows_nonempty:
  assumes "fd \<noteq> []"
  shows "tied_rows fd \<noteq> []"
proof -
  have "Max (set (map Total fd)) \<in> set (map Total fd)"
    using assms by (intro Max_in) simp_all
  then obtain r where "r \<in> set fd" "Total r = Max (set (map Total fd))"
    by auto
  then have "r \<in> set (tied_rows fd)"
    by (simp add: tied_rows_def)
  then show ?thesis by auto
qed

text \<open>The head of a filtered list is the first element of the list that passes.\<close>

lemma filter_head_first:
  "filter p xs = y # ys \<Longrightarrow> \<exists>i<length xs. xs ! i = y \<and> p (xs ! i) \<and> (\<forall>j<i. \<not> p (xs ! j))"
proof (induction xs)
  case Nil
  then show ?case by simp
next
  case (Cons x xs)
  show ?case
  proof (cases "p x")
    case True
    with Cons.prems have "x = y" by simp
    with True show ?thesis by (intro exI [of _ 0]) simp
  next
    case False
    with Cons.prems have "filter p xs = y # ys" by simp
    from Cons.IH [OF this] obtain i where i: "i < length xs" "xs ! i = y" "p (xs ! i)"
      "\<forall>j<i. \<not> p (xs ! j)" by blast
    have "\<forall>j<Suc i. \<not> p ((x # xs) ! j)"
      using False i(4) by (auto simp: less_Suc_eq_0_disj)
    with i show ?thesis by (intro exI [of _ "Suc i"]) simp
  qed
qed

lemma max_datetime_first:
  assumes "fd \<noteq> []"
  shows "\<exists>i. first_max_index fd i \<and> max_datetime fd = Inr (DateTime (fd ! i))"
proof -
  obtain y ys where t: "tied_rows fd = y # ys"
    using tied_rows_nonempty [OF assms] by (cases "tied_rows fd") auto
  from filter_head_first [OF t [unfolded tied_rows_def]]
  obtain i where "i < length fd" "fd ! i = y" "Total (fd ! i) = Max (set (map Total fd))"
    "\<forall>j<i. Total (fd ! j) \<noteq> Max (set (map Total fd))" by blast
  moreover have "max_datetime fd = Inr (DateTime y)"
    using assms t by (simp add: max_datetime_def max_total_row_eq_tied iloc0_def)
  ultimately show ?thesis
    unfolding first_max_index_def by blast
qed

lemma fold_max_start: "(b::nat) \<le> fold max zs b"
  by (induction zs arbitrary: b) (simp, force intro: order_trans [OF max.cobounded2])

lemma fold_max_upper: "(y::nat) \<in> set ys \<Longrightarrow> y \<le> fold max ys a"
proof (induction ys arbitrary: a)
  case Nil
  then show ?case by simp
next
  case (Cons z zs)
  show ?case
  proof (cases "y = z")
    case True
    then show ?thesis using fold_max_start [of "max z a" zs] by simp
  next
    case False
    with Cons show ?thesis by simp
  qed
qed

lemma fold_max_attained: "fold max ys (a::nat) = a \<or> fold max ys a \<in> set ys"
proof (induction ys arbitrary: a)
  case Nil
  then show ?case by simp
next
  case (Cons z zs)
  from Cons [of "max z a"] show ?case
    by (auto simp: max_def split: if_splits)
qed

lemma count_le_max_count: "v \<in> set xs \<Longrightarrow> count_list xs v \<le> max_count xs"
  unfolding max_count_def by (rule fold_max_upper) simp

lemma max_count_attained:
  assumes "xs \<noteq> []"
  shows "\<exists>v\<in>set xs. count_list xs v = max_count xs"
proof -
  obtain x where x: "x \<in> set xs" using assms by (cases xs) auto
  then have "0 < count_list xs x" using count_list_0_iff [of xs x] by auto
  with count_le_max_count [OF x] have "max_count xs \<noteq> 0" by simp
  with fold_max_attained [of "map (count_list xs) xs" 0]
  have "max_count xs \<in> set (map (count_list xs) xs)"
    by (simp add: max_count_def)
  then show ?thesis by auto
qed

lemma set_series_mode: "set (series_mode xs) = {v. is_mode xs v}"
proof (cases "xs = []")
  case True
  then show ?thesis by (simp add: series_mode_def is_mode_def)
next
  case False
  from max_count_attained [OF False] obtain m where m: "m \<in> set xs" "count_list xs m = max_count xs"
    by blast
  show ?thesis
  proof (intro set_eqI iffI)
    fix v assume "v \<in> set (series_mode xs)"
    then have "v \<in> set xs" "count_list xs v = max_count xs"
      by (simp_all add: series_mode_def)
    then show "v \<in> {v. is_mode xs v}"
      using count_le_max_count [of _ xs] by (simp add: is_mode_def)
  next
    fix v assume "v \<in> {v. is_mode xs v}"
    then have v: "v \<in> set xs" "count_list xs m \<le> count_list xs v"
      using m(1) by (simp_all add: is_mode_def)
    with m(2) count_le_max_count [OF v(1)] have "count_list xs v = max_count xs" by simp
    with v(1) show "v \<in> set (series_mode xs)" by (simp add: series_mode_def)
  qed
qed

lemma mode0_smallest:
  assumes "xs \<noteq> []"
  shows "\<exists>h. mode0 xs = Inr h \<and> smallest_mode xs h"
proof -
  from max_count_attained [OF assms] obtain m where "m \<in> set xs" "count_list xs m = max_count xs"
    by blast
  then have "m \<in> set (series_mode xs)" by (simp add: series_mode_def)
  then obtain h hs where hs: "series_mode xs = h # hs"
    by (cases "series_mode xs") auto
  have "sorted (series_mode xs)" by (simp add: series_mode_def)
  with hs have le: "\<forall>v\<in>set (series_mode xs). h \<le> v" by auto
  have "h \<in> set (series_mode xs)" using hs by simp
  with le have "smallest_mode xs h"
    unfolding smallest_mode_def set_series_mode by simp
  moreover have "mode0 xs = Inr h" by (simp add: mode0_def hs)
  ultimately show ?thesis by blast
qed

section \<open>Grouped sums\<close>

text \<open>In exact arithmetic the group sums of any grouping add up to the column's sum.\<close>

lemma sum_groups:
  "finite K \<Longrightarrow> key ` set xs \<subseteq> K \<Longrightarrow>
     (\<Sum>k\<in>K. sum_list (map f (filter (\<lambda>r. key r = k) xs))) = (sum_list (map f xs) :: real)"
proof (induction xs)
  case Nil
  then show ?case by simp
next
  case (Cons x xs)
  have "(\<Sum>k\<in>K. sum_list (map f (filter (\<lambda>r. key r = k) (x # xs))))
        = (\<Sum>k\<in>K. (if key x = k then f x else 0) + sum_list (map f (filter (\<lambda>r. key r = k) xs)))"
    by (rule sum.cong) auto
  also have "\<dots> = (\<Sum>k\<in>K. if key x = k then f x else 0)
                   + (\<Sum>k\<in>K. sum_list (map f (filter (\<lambda>r. key r = k) xs)))"
    by (rule sum.distrib)
  also have "(\<Sum>k\<in>K. if key x = k then f x else 0) = f x"
    using Cons.prems by simp
  also have "(\<Sum>k\<in>K. sum_list (map f (filter (\<lambda>r. key r = k) xs))) = sum_list (map f xs)"
    using Cons by simp
  finally show ?case by simp
qed

lemma sum_list_groups:
  "sum_list (map (\<lambda>k. sum_list (map f (filter (\<lambda>r. key r = k) df))) (group_keys key df))
     = (sum_list (map f df) :: real)"
proof -
  have d: "distinct (group_keys key df)" and s: "set (group_keys key df) = key ` set df"
    by (simp_all add: group_keys_def)
  have "sum_list (map (\<lambda>k. sum_list (map f (filter (\<lambda>r. key r = k) df))) (group_keys key df))
        = (\<Sum>k\<in>set (group_keys key df). sum_list (map f (filter (\<lambda>r. key r = k) df)))"
    using d by (rule sum_list_distinct_conv_sum_set)
  also have "\<dots> = sum_list (map f df)"
    by (rule sum_groups) (simp_all add: s)
  finally show ?thesis .
qed

text \<open>Float sums of whole numbers that stay within \<open>2 ^ 53\<close> are exact.\<close>

lemma fadd_whole:
  assumes "a \<in> \<int>" "b \<in> \<int>" "\<bar>a\<bar> + \<bar>b\<bar> \<le> 2 ^ 53"
  shows "fadd (Fin a) (Fin b) = Fin (a + b)"
proof (cases "a + b = 0")
  case True
  then show ?thesis by simp
next
  case False
  have "a + b \<in> \<int>" using assms(1,2) by (rule Ints_add)
  moreover have "\<bar>a + b\<bar> \<le> 2 ^ 53" using assms(3) by linarith
  ultimately have "round_float64 (a + b) = Fin (a + b)" by (rule round_float64_whole)
  with False show ?thesis by simp
qed

lemma foldl_fadd_whole:
  "a \<in> \<int> \<Longrightarrow> \<forall>x\<in>set xs. x \<in> \<int> \<Longrightarrow> \<bar>a\<bar> + sum_list (map abs xs) \<le> 2 ^ 53 \<Longrightarrow>
     foldl fadd (Fin a) (map Fin xs) = Fin (a + sum_list xs)"
proof (induction xs arbitrary: a)
  case Nil
  then show ?case by simp
next
  case (Cons x xs)
  have nn: "0 \<le> sum_list (map abs xs)" by (rule sum_list_nonneg) auto
  have x: "x \<in> \<int>" using Cons.prems(2) by simp
  have step: "fadd (Fin a) (Fin x) = Fin (a + x)"
    using Cons.prems(1) x
  proof (rule fadd_whole)
    show "\<bar>a\<bar> + \<bar>x\<bar> \<le> 2 ^ 53" using Cons.prems(3) nn by simp
  qed
  have "foldl fadd (Fin (a + x)) (map Fin xs) = Fin (a + x + sum_list xs)"
  proof (rule Cons.IH)
    show "a + x \<in> \<int>" using Cons.prems(1) x by (rule Ints_add)
    show "\<forall>x\<in>set xs. x \<in> \<int>" using Cons.prems(2) by simp
    show "\<bar>a + x\<bar> + sum_list (map abs xs) \<le> 2 ^ 53" using Cons.prems(3) by simp
  qed
  then show ?case by (simp only: list.map foldl_Cons step sum_list.Cons add.assoc)
qed

lemma sum_nums_whole: "whole_bounded xs \<Longrightarrow> sum_nums (map Fin xs) = Fin (sum_list xs)"
  using foldl_fadd_whole [of 0 xs] by (simp add: sum_nums_def whole_bounded_def)

lemma series_sum_whole: "whole_bounded xs \<Longrightarrow> series_sum xs = Fin (sum_list xs)"
  by (simp add: series_sum_def sum_nums_whole)

lemma sum_list_abs_filter: "sum_list (map abs (map f (filter p xs))) \<le> (sum_list (map abs (map f xs)) :: real)"
  by (induction xs) auto

lemma whole_bounded_filter:
  assumes "whole_bounded (map f xs)"
  shows "whole_bounded (map f (filter p xs))"
proof -
  have "sum_list (map abs (map f (filter p xs))) \<le> sum_list (map abs (map f xs))"
    by (rule sum_list_abs_filter)
  with assms show ?thesis by (auto simp: whole_bounded_def)
qed

lemma sum_list_whole: "\<forall>x\<in>set xs. x \<in> \<int> \<Longrightarrow> (sum_list xs :: real) \<in> \<int>"
  by (induction xs) simp_all

lemma abs_sum_list_le: "\<bar>sum_list xs\<bar> \<le> (sum_list (map abs xs) :: real)"
proof (induction xs)
  case Nil
  show ?case by simp
next
  case (Cons x xs)
  have "\<bar>x + sum_list xs\<bar> \<le> \<bar>x\<bar> + \<bar>sum_list xs\<bar>" by (rule abs_triangle_ineq)
  with Cons show ?case by simp
qed

text \<open>The exact group sums of a whole, bounded column are whole and bounded again.\<close>

lemma whole_bounded_groups:
  assumes "whole_bounded (map col df)"
  shows "whole_bounded (map (\<lambda>k. sum_list (map col (filter (\<lambda>r. key r = k) df))) (group_keys key df))"
proof -
  let ?g = "\<lambda>k. sum_list (map col (filter (\<lambda>r. key r = k) df))"
  have w: "\<forall>k\<in>set (group_keys key df). ?g k \<in> \<int>"
  proof
    fix k
    have "whole_bounded (map col (filter (\<lambda>r. key r = k) df))"
      using assms by (rule whole_bounded_filter)
    then show "?g k \<in> \<int>" by (intro sum_list_whole) (simp add: whole_bounded_def)
  qed
  have "sum_list (map abs (map ?g (group_keys key df)))
        \<le> sum_list (map (\<lambda>k. sum_list (map (\<lambda>r. \<bar>col r\<bar>) (filter (\<lambda>r. key r = k) df)))
            (group_keys key df))"
    unfolding map_map
  proof (rule sum_list_mono)
    fix k
    show "(abs \<circ> ?g) k \<le> sum_list (map (\<lambda>r. \<bar>col r\<bar>) (filter (\<lambda>r. key r = k) df))"
      using abs_sum_list_le [of "map col (filter (\<lambda>r. key r = k) df)"] by (simp add: o_def)
  qed
  also have "\<dots> = sum_list (map (\<lambda>r. \<bar>col r\<bar>) df)" by (rule sum_list_groups)
  also have "\<dots> \<le> 2 ^ 53" using assms by (simp add: whole_bounded_def o_def)
  finally show ?thesis using w by (simp add: whole_bounded_def)
qed

lemma groupby_sum_whole:
  assumes "whole_bounded (map col df)"
  shows "map snd (groupby_sum key col df)
           = map Fin (map (\<lambda>k. sum_list (map col (filter (\<lambda>r. key r = k) df))) (group_keys key df))"
proof -
  have "\<And>k. series_sum (map col (filter (\<lambda>r. key r = k) df))
           = Fin (sum_list (map col (filter (\<lambda>r. key r = k) df)))"
    using assms by (intro series_sum_whole whole_bounded_filter)
  then show ?thesis by (simp add: groupby_sum_def o_def)
qed

lemma groupby_sum_total_whole:
  assumes "whole_bounded (map col df)"
  shows "sum_nums (map snd (groupby_sum key col df)) = series_sum (map col df)"
proof -
  have "sum_nums (map snd (groupby_sum key col df))
          = Fin (sum_list (map (\<lambda>k. sum_list (map col (filter (\<lambda>r. key r = k) df)))
              (group_keys key df)))"
    unfolding groupby_sum_whole [OF assms]
    using assms by (intro sum_nums_whole whole_bounded_groups)
  also have "\<dots> = Fin (sum_list (map col df))" by (simp only: sum_list_groups)
  also have "\<dots> = series_sum (map col df)" using assms by (simp add: series_sum_whole)
  finally show ?thesis .
qed

section \<open>The claims about filtering and aggregation\<close>

lemmas example_defs = example_csv_def reading_def load_data_def month_name_def month_names_def

lemma groupby_sum_zip:
  "groupby_sum key col df = groupby_sum fst snd (zip (map key df) (map col df))"
proof -
  have k: "map fst (zip (map key df) (map col df)) = map key df" by simp
  have "\<And>k. map snd (filter (\<lambda>p. fst p = k) (zip (map key df) (map col df)))
          = map col (filter (\<lambda>r. key r = k) df)"
    by (induction df) simp_all
  then show ?thesis
    by (simp add: groupby_sum_def group_keys_def k)
qed

lemma example_all_pass:
  "filter_data (load_data example_csv) [2020, 2021] [1, 2, 3] (1, 31) = load_data example_csv"
  by (simp add: filter_data_eq_filter passes_def example_defs)

lemma example_totals: "map Total (load_data example_csv) = [10, 20, 20, 5]"
  by (simp add: example_defs)

text \<open>
  Claim C2. For every row of the dataset and every filter selection (a list of years, a
  list of months, an inclusive day range from \<open>lo\<close> to \<open>hi\<close>), the row is in the
  filtered dataset if and only if its \<open>Year\<close> is among the selected years, its \<open>Month\<close>
  is among the selected months, and the day of the month of its \<open>DateTime\<close> lies between
  \<open>lo\<close> and \<open>hi\<close>. This holds for any bounds, in particular for
  \<open>1 \<le> lo \<le> hi \<le> 31\<close>, the slider's range.
\<close>

theorem filter_data_membership:
  "r \<in> set data \<Longrightarrow>
     (r \<in> set (filter_data data year_filter month_filter (lo, hi)) \<longleftrightarrow>
        Year r \<in> set year_filter \<and> Month r \<in> set month_filter \<and>
        lo \<le> dt_day (DateTime r) \<and> dt_day (DateTime r) \<le> hi)"
  by (simp add: filter_data_eq_filter passes_def)

theorem filter_data_membership_witness:
  "hd (load_data example_csv) \<in> set (load_data example_csv) \<and>
   hd (load_data example_csv) \<in> set (filter_data (load_data example_csv) [2020] [1] (1, 5)) \<and>
   hd (load_data example_csv) \<notin> set (filter_data (load_data example_csv) [2020] [1] (6, 31))"
proof -
  have h: "hd (load_data example_csv) \<in> set (load_data example_csv)"
    by (simp add: example_defs)
  show ?thesis
    using h filter_data_membership [OF h, of "[2020]" "[1]" 1 5]
      filter_data_membership [OF h, of "[2020]" "[1]" 6 31]
    by (simp add: example_defs)
qed

text \<open>
  Claim C5. Narrowing a filter selection never enlarges the filtered dataset: when the
  second selection's years are among the first's, its months are among the first's and
  its day range lies inside the first's, the filtered dataset under the second selection
  has at most as many rows as under the first. Narrowing one dimension with the other two
  unchanged is the special case the claim names.
\<close>

theorem filter_data_narrowing:
  "set years2 \<subseteq> set years1 \<Longrightarrow> set months2 \<subseteq> set months1 \<Longrightarrow> lo1 \<le> lo2 \<Longrightarrow> hi2 \<le> hi1 \<Longrightarrow>
     length (filter_data data years2 months2 (lo2, hi2))
       \<le> length (filter_data data years1 months1 (lo1, hi1))"
  unfolding filter_data_eq_filter
  by (rule length_filter_mono) (auto simp: passes_def)

theorem filter_data_narrowing_witness:
  "set [2020::int] \<subseteq> set [2020, 2021] \<and> set [1::int] \<subseteq> set [1, 2] \<and> (1::nat) \<le> 6 \<and> (6::nat) \<le> 31 \<and>
   length (filter_data (load_data example_csv) [2020] [1] (6, 6))
     \<le> length (filter_data (load_data example_csv) [2020, 2021] [1, 2] (1, 31))"
proof -
  have a: "set [2020::int] \<subseteq> set [2020, 2021]" and b: "set [1::int] \<subseteq> set [1, 2]"
    and c: "(1::nat) \<le> 6" and d: "(6::nat) \<le> 31"
    by simp_all
  from filter_data_narrowing [OF a b c d, of "load_data example_csv"] a b c d
  show ?thesis by blast
qed

text \<open>
  Claim C4, as the code has it. Float addition rounds, so the sum of \<open>Total\<close> and the
  sum of the group sums can differ in the last place. They agree, and equal the exact
  sum, for every filtered dataset whose \<open>Total\<close> values are whole numbers with absolute
  values adding up to at most \<open>2 ^ 53\<close>: then the overall sum equals the sum of the
  per-year group sums and the sum of the group sums by (\<open>Year\<close>, \<open>Month\<close>,
  \<open>MonthName\<close>).
\<close>

theorem exact_totals_are_grouping_invariant:
  assumes "whole_bounded
             (map Total (filter_data (load_data csv) year_filter month_filter day_filter))"
  shows "sum_nums (map snd (groupby_sum Year Total
           (filter_data (load_data csv) year_filter month_filter day_filter)))
         = series_sum (map Total (filter_data (load_data csv) year_filter month_filter day_filter))
       \<and> sum_nums (map snd (groupby_sum (\<lambda>r. (Year r, Month r, MonthName r)) Total
           (filter_data (load_data csv) year_filter month_filter day_filter)))
         = series_sum (map Total (filter_data (load_data csv) year_filter month_filter day_filter))
       \<and> series_sum (map Total (filter_data (load_data csv) year_filter month_filter day_filter))
         = Fin (sum_list (map Total
             (filter_data (load_data csv) year_filter month_filter day_filter)))"
  using assms by (simp add: groupby_sum_total_whole series_sum_whole)

text \<open>On the small dataset, whose totals are whole, both sums are 55.\<close>

theorem exact_totals_are_grouping_invariant_witness:
  "whole_bounded
     (map Total (filter_data (load_data example_csv) [2020, 2021] [1, 2, 3] (1, 31))) \<and>
   sum_nums (map snd (groupby_sum Year Total
     (filter_data (load_data example_csv) [2020, 2021] [1, 2, 3] (1, 31)))) = Fin 55 \<and>
   series_sum (map Total (filter_data (load_data example_csv) [2020, 2021] [1, 2, 3] (1, 31)))
     = Fin 55"
proof -
  have w: "whole_bounded
             (map Total (filter_data (load_data example_csv) [2020, 2021] [1, 2, 3] (1, 31)))"
    unfolding example_all_pass example_totals by (simp add: whole_bounded_def)
  from exact_totals_are_grouping_invariant [OF w] w show ?thesis
    unfolding example_all_pass example_totals by simp
qed

text \<open>The cells of the dataset of tenths are the floats nearest to 0.1, 0.2 and 0.3.\<close>

lemma tenths_cells:
  "round_float64 (1 / 10) = Fin (3602879701896397 / 2 ^ 55)"
  "round_float64 (2 / 10) = Fin (3602879701896397 / 2 ^ 54)"
  "round_float64 (3 / 10) = Fin (5404319552844595 / 2 ^ 54)"
  by (simp_all add: float_eval)


lemma tenths_all_pass:
  "filter_data (load_data tenths_csv) [2020, 2021] [1, 2, 3] (1, 31) = load_data tenths_csv"
  by (simp add: filter_data_eq_filter passes_def example_defs tenths_csv_def)

lemma tenths_columns:
  "map Total (load_data tenths_csv)
     = [3602879701896397 / 2 ^ 55, 3602879701896397 / 2 ^ 54,
        5404319552844595 / 2 ^ 54, 5404319552844595 / 2 ^ 54]"
  "map Year (load_data tenths_csv) = [2020, 2021, 2021, 2021]"
  by (simp_all add: example_defs tenths_csv_def)

text \<open>
  Claim C4 as stated fails: for readings of 0.1 in 2020 and of 0.2, 0.3 and 0.3 in 2021
  the overall sum, added in row order, is the float printed as \<open>0.9000000000000001\<close>,
  while the yearly sums, printed as \<open>0.1\<close> and \<open>0.8\<close>, add up to the float printed as
  \<open>0.9\<close>.
\<close>

theorem rounded_totals_depend_on_grouping:
  "series_sum (map Total (filter_data (load_data tenths_csv) [2020, 2021] [1, 2, 3] (1, 31)))
     = Fin (4053239664633447 / 2 ^ 52) \<and>
   map snd (groupby_sum Year Total
     (filter_data (load_data tenths_csv) [2020, 2021] [1, 2, 3] (1, 31)))
     = [Fin (3602879701896397 / 2 ^ 55), Fin (3602879701896397 / 2 ^ 52)] \<and>
   sum_nums (map snd (groupby_sum Year Total
     (filter_data (load_data tenths_csv) [2020, 2021] [1, 2, 3] (1, 31))))
     = Fin (8106479329266893 / 2 ^ 53) \<and>
   series_sum (map Total (filter_data (load_data tenths_csv) [2020, 2021] [1, 2, 3] (1, 31)))
     \<noteq> sum_nums (map snd (groupby_sum Year Total
         (filter_data (load_data tenths_csv) [2020, 2021] [1, 2, 3] (1, 31))))"
proof -
  have y: "groupby_sum Year Total (load_data tenths_csv)
             = [(2020, Fin (3602879701896397 / 2 ^ 55)), (2021, Fin (3602879701896397 / 2 ^ 52))]"
    by (subst groupby_sum_zip)
      (simp add: tenths_columns groupby_sum_def group_keys_def series_sum_def sum_nums_def
        float_eval)
  show ?thesis
    unfolding tenths_all_pass y
    by (simp add: tenths_columns series_sum_def sum_nums_def float_eval)
qed

text \<open>The bound \<open>2 ^ 53\<close> cannot be raised: for readings of \<open>2 ^ 53\<close> in 2020 and of 1
  and 1 in 2021 the overall sum is \<open>2 ^ 53\<close>, each 1 being rounded away, while the yearly
  sums \<open>2 ^ 53\<close> and 2 add up to \<open>2 ^ 53 + 2\<close>.\<close>

lemma drift_all_pass:
  "filter_data (load_data drift_csv) [2020, 2021] [1, 2, 3] (1, 31) = load_data drift_csv"
  by (simp add: filter_data_eq_filter passes_def example_defs drift_csv_def)

lemma drift_columns:
  "map Total (load_data drift_csv) = [9007199254740992, 1, 1]"
  "map Year (load_data drift_csv) = [2020, 2021, 2021]"
  by (simp_all add: example_defs drift_csv_def)

lemma drift_roundings:
  "round_float64 9007199254740992 = Fin 9007199254740992"
  "round_float64 9007199254740993 = Fin 9007199254740992"
  "round_float64 9007199254740994 = Fin 9007199254740994"
  "round_float64 1 = Fin 1"
  "round_float64 2 = Fin 2"
  by (simp_all add: float_eval)

lemma whole_bound_is_tight:
  "series_sum (map Total (filter_data (load_data drift_csv) [2020, 2021] [1, 2, 3] (1, 31)))
     = Fin 9007199254740992 \<and>
   map snd (groupby_sum Year Total
     (filter_data (load_data drift_csv) [2020, 2021] [1, 2, 3] (1, 31)))
     = [Fin 9007199254740992, Fin 2] \<and>
   sum_nums (map snd (groupby_sum Year Total
     (filter_data (load_data drift_csv) [2020, 2021] [1, 2, 3] (1, 31))))
     = Fin 9007199254740994 \<and>
   series_sum (map Total (filter_data (load_data drift_csv) [2020, 2021] [1, 2, 3] (1, 31)))
     \<noteq> sum_nums (map snd (groupby_sum Year Total
         (filter_data (load_data drift_csv) [2020, 2021] [1, 2, 3] (1, 31))))"
proof -
  have t: "series_sum [9007199254740992, 1, 1] = Fin 9007199254740992"
    by (simp add: series_sum_def sum_nums_def drift_roundings)
  have g: "groupby_sum fst snd [(2020 :: int, 9007199254740992), (2021, 1), (2021, 1)]
             = [(2020, Fin 9007199254740992), (2021, Fin 2)]"
    by (simp add: groupby_sum_def group_keys_def series_sum_def sum_nums_def drift_roundings)
  have s: "sum_nums [Fin 9007199254740992, Fin 2] = Fin 9007199254740994"
    by (simp add: sum_nums_def drift_roundings)
  have y: "groupby_sum Year Total (load_data drift_csv)
             = [(2020, Fin 9007199254740992), (2021, Fin 2)]"
    by (subst groupby_sum_zip) (simp add: drift_columns g)
  show ?thesis
    unfolding drift_all_pass by (simp add: drift_columns t y s)
qed

text \<open>
  Claim C3. For every non-empty filtered dataset (whether the largest \<open>Total\<close> occurs
  once or several times), the reported maximum-usage timestamp is that of the first row,
  in row order, holding the largest \<open>Total\<close>; and the reported most frequent peak hour is
  a mode of the hour of day over exactly the rows holding the largest \<open>Total\<close>, the
  smallest hour among the modes. These two results are what a completed run of \<open>main\<close>
  shows in its timestamp line and its peak-hour line.
\<close>

theorem max_record_and_peak_hour:
  assumes "fd \<noteq> []"
  shows "(\<exists>i. first_max_index fd i \<and> max_datetime fd = Inr (DateTime (fd ! i))) \<and>
         (\<exists>h. peak_hour_freq fd = Inr h \<and>
               smallest_mode (map (\<lambda>r. dt_hour (DateTime r)) (tied_rows fd)) h)"
proof
  show "\<exists>i. first_max_index fd i \<and> max_datetime fd = Inr (DateTime (fd ! i))"
    using assms by (rule max_datetime_first)
next
  have "map (\<lambda>r. dt_hour (DateTime r)) (tied_rows fd) \<noteq> []"
    using tied_rows_nonempty [OF assms] by simp
  from mode0_smallest [OF this] show "\<exists>h. peak_hour_freq fd = Inr h \<and>
               smallest_mode (map (\<lambda>r. dt_hour (DateTime r)) (tied_rows fd)) h"
    using assms by (simp add: peak_hour_freq_def max_total_row_eq_tied)
qed

text \<open>On the small dataset the largest \<open>Total\<close>, 20, occurs in the second and third
  rows, at hours 3 and 5: the second row's timestamp is reported, and hour 3.\<close>

lemma example_max_datetime:
  "max_datetime (load_data example_csv) = Inr (DateTime (reading 2020 1 6 3 20)) \<and>
   peak_hour_freq (load_data example_csv) = Inr 3"
  by (simp add: example_defs max_datetime_def peak_hour_freq_def max_total_row_def series_max_def
      iloc0_def mode0_def series_mode_def max_count_def)

theorem max_record_and_peak_hour_witness:
  "load_data example_csv \<noteq> [] \<and>
   (\<exists>i. first_max_index (load_data example_csv) i \<and>
        max_datetime (load_data example_csv) = Inr (DateTime (load_data example_csv ! i))) \<and>
   (\<exists>h. peak_hour_freq (load_data example_csv) = Inr h \<and>
        smallest_mode (map (\<lambda>r. dt_hour (DateTime r)) (tied_rows (load_data example_csv))) h)"
proof -
  have h: "load_data example_csv \<noteq> []"
    by (simp add: example_defs)
  from max_record_and_peak_hour [OF h] h show ?thesis by blast
qed

section \<open>The assembler's traversal\<close>

lemma parsed_append: "parsed (xs @ ys) = parsed xs @ parsed ys"
  by (simp add: parsed_def)

lemma failed_append: "failed (xs @ ys) = failed xs @ failed ys"
  by (simp add: failed_def)

lemma fold_process_file:
  "data_frames (fold (process_file year (path_join preprocessed_data_dir year)) files st)
     = data_frames st @ map frame_of (parsed (folder_candidates year files)) \<and>
   printed (fold (process_file year (path_join preprocessed_data_dir year)) files st)
     = printed st @ map diagnostic_of (failed (folder_candidates year files))"
proof (induction files arbitrary: st)
  case Nil
  show ?case by (simp add: folder_candidates_def parsed_def failed_def)
next
  case (Cons f files)
  show ?case
  proof (cases "endswith (fst f) ''.csv''")
    case False
    then show ?thesis
      using Cons [of st] by (simp add: process_file_def folder_candidates_def)
  next
    case True
    show ?thesis
    proof (cases "snd f")
      case (Inl e)
      with True show ?thesis
        using Cons [of "st\<lparr>printed := printed st @ [error_message (path_join (path_join preprocessed_data_dir year) (fst f)) e]\<rparr>"]
        by (simp add: process_file_def folder_candidates_def parsed_def failed_def
            diagnostic_of_def error_message_def path_join_def)
    next
      case (Inr df)
      with True show ?thesis
        using Cons [of "st\<lparr>data_frames := data_frames st @ [tag_frame year (fst f) df]\<rparr>"]
        by (simp add: process_file_def folder_candidates_def parsed_def failed_def
            frame_of_def tag_frame_def)
    qed
  qed
qed

lemma process_year_NotFolder: "snd entry = NotFolder \<Longrightarrow> process_year entry st = st"
  by (simp add: process_year_def Let_def)

lemma process_year_Folder:
  "snd entry = Folder files \<Longrightarrow>
     process_year entry st
       = fold (process_file (fst entry) (path_join preprocessed_data_dir (fst entry))) files st"
  by (simp add: process_year_def Let_def)

lemma candidates_Cons:
  "candidates (entry # listing) =
     (case snd entry of Folder files \<Rightarrow> folder_candidates (fst entry) files | NotFolder \<Rightarrow> [])
       @ candidates listing"
  by (simp add: candidates_def)

lemma fold_process_year:
  "data_frames (fold process_year listing st) = data_frames st @ map frame_of (valid_files listing) \<and>
   printed (fold process_year listing st) = printed st @ map diagnostic_of (invalid_files listing)"
proof (induction listing arbitrary: st)
  case Nil
  show ?case by (simp add: valid_files_def invalid_files_def candidates_def parsed_def failed_def)
next
  case (Cons entry listing)
  show ?case
  proof (cases "snd entry")
    case NotFolder
    then show ?thesis
      using Cons [of st]
      by (simp add: process_year_NotFolder valid_files_def invalid_files_def candidates_Cons)
  next
    case (Folder files)
    then show ?thesis
      using Cons [of "fold (process_file (fst entry) (path_join preprocessed_data_dir (fst entry))) files st"]
        fold_process_file [of "fst entry" files st]
      by (simp add: process_year_Folder valid_files_def invalid_files_def candidates_Cons
          parsed_append failed_append)
  qed
qed

lemma scan_result:
  "data_frames (scan listing) = map frame_of (valid_files listing)"
  "printed (scan listing) = map diagnostic_of (invalid_files listing)"
  using fold_process_year [of listing "\<lparr>data_frames = [], printed = []\<rparr>"]
  by (simp_all add: scan_def)

lemma assemble_outcome:
  "assemble listing =
     (if valid_files listing = [] then
        \<lparr>output_file = None,
         stdout = map diagnostic_of (invalid_files listing) @ [no_data_message]\<rparr>
      else
        \<lparr>output_file = Some (concat (map frame_of (valid_files listing))),
         stdout = map diagnostic_of (invalid_files listing)
                  @ [''Dataset created successfully!'', saved_message]\<rparr>)"
  by (simp add: assemble_def scan_result Let_def)

lemma diagnostic_not_no_data:
  "diagnostic_of v \<noteq> no_data_message" "no_data_message \<noteq> diagnostic_of v"
  by (simp_all add: diagnostic_of_def no_data_message_def)

lemma success_messages_not_no_data:
  "no_data_message \<noteq> ''Dataset created successfully!''" "no_data_message \<noteq> saved_message"
  by (simp_all add: no_data_message_def saved_message_def)

lemma length_concat_frames:
  "length (concat (map frame_of vs)) = sum_list (map (\<lambda>v. length (snd (snd v))) vs)"
  by (induction vs) (simp_all add: frame_of_def)

text \<open>
  Claim C8. When no candidate file parses (each fails, or there is none), the assembler
  writes no output file and ends its output with the "no data found" message; when at
  least one parses, it writes the combined rows of the parsed files and never prints that
  message.
\<close>

theorem no_data_iff_nothing_parsed:
  "(valid_files listing = [] \<longrightarrow>
      output_file (assemble listing) = None \<and>
      last (stdout (assemble listing)) = no_data_message) \<and>
   (valid_files listing \<noteq> [] \<longrightarrow>
      output_file (assemble listing) = Some (concat (map frame_of (valid_files listing))) \<and>
      no_data_message \<notin> set (stdout (assemble listing)))"
  by (auto simp: assemble_outcome diagnostic_not_no_data success_messages_not_no_data)

lemmas tree_defs = example_tree_def invalid_tree_def valid_files_def invalid_files_def
  candidates_def folder_candidates_def parsed_def failed_def endswith_def

theorem no_data_iff_nothing_parsed_witness:
  "valid_files invalid_tree = [] \<and> output_file (assemble invalid_tree) = None \<and>
   last (stdout (assemble invalid_tree)) = no_data_message \<and>
   valid_files example_tree \<noteq> [] \<and>
   output_file (assemble example_tree) = Some (concat (map frame_of (valid_files example_tree))) \<and>
   no_data_message \<notin> set (stdout (assemble example_tree))"
proof -
  have a: "valid_files invalid_tree = []" and b: "valid_files example_tree \<noteq> []"
    by (simp_all add: tree_defs)
  from no_data_iff_nothing_parsed [of invalid_tree] no_data_iff_nothing_parsed [of example_tree] a b
  show ?thesis by blast
qed

text \<open>
  Claim C9. For every directory tree, with its candidate files (the \<open>.csv\<close> entries of
  the root's folders) split into those that parse and those that fail: the run prints
  one diagnostic per failing file, naming its path and the failure text, before its
  closing message, and no failure stops it; the frames collected are those of the parsing
  files in traversal order, each row tagged with the folder's name as year and the first
  two characters of the file's name as month, rows in file order; so the combined row
  count is the sum of the row counts of the parsing files, and these rows are what is
  written when at least one file parses.
\<close>

theorem assembler_rows_and_diagnostics:
  "stdout (assemble listing) =
     map diagnostic_of (invalid_files listing)
       @ (if valid_files listing = [] then [no_data_message]
          else [''Dataset created successfully!'', saved_message]) \<and>
   length (map diagnostic_of (invalid_files listing)) = length (invalid_files listing) \<and>
   data_frames (scan listing) = map frame_of (valid_files listing) \<and>
   length (concat (data_frames (scan listing)))
     = sum_list (map (\<lambda>v. length (snd (snd v))) (valid_files listing)) \<and>
   output_file (assemble listing) =
     (if valid_files listing = [] then None
      else Some (concat (map frame_of (valid_files listing))))"
  by (simp add: assemble_outcome scan_result length_concat_frames)

theorem assembler_rows_and_diagnostics_witness:
  "stdout (assemble example_tree) =
     [''Error reading file ../preprocessingdata/2020/02.csv: bad'',
      ''Dataset created successfully!'', saved_message] \<and>
   output_file (assemble example_tree) =
     Some [\<lparr>cells = 1, Year_col = ''2020'', Month_col = ''01''\<rparr>,
           \<lparr>cells = 2, Year_col = ''2020'', Month_col = ''01''\<rparr>,
           \<lparr>cells = 7, Year_col = ''2021'', Month_col = ''03''\<rparr>]"
  using assembler_rows_and_diagnostics [of example_tree]
  by (simp add: tree_defs frame_of_def diagnostic_of_def preprocessed_data_dir_def)

section \<open>The report\<close>

lemma bind_err_Inr: "bind_err m f = Inr y \<longleftrightarrow> (\<exists>x. m = Inr x \<and> f x = Inr y)"
  by (cases m) (simp_all add: bind_err_def)

lemma bind_err_Inl [simp]: "bind_err (Inl e) f = Inl e"
  by (simp add: bind_err_def)

lemma groupby_sum_Nil [simp]: "groupby_sum key col [] = []"
  by (simp add: groupby_sum_def group_keys_def)

lemma usage_extremes_Nil: "usage_extremes [] = Inl ValueError"
  by (simp add: usage_extremes_def idxmax_def first_label_def)

lemma main_empty_selection:
  assumes "filter_data (load_data csv) year_filter month_filter day_filter = []"
  shows "main csv year_filter month_filter day_filter
           = (if year_filter = [] then Inl UnboundLocalError else Inl ValueError)"
  using assms
  by (cases year_filter) (simp_all add: main_def dynamic_header_def usage_extremes_Nil Let_def)

text \<open>\<open>pick_first\<close> returns the first entry of best key: all entries before it have a
  strictly worse key, none after it a better one.\<close>

lemma pick_first_split:
  fixes f :: "num \<Rightarrow> 'a::linorder"
  assumes b: "\<And>a c. better a c \<longleftrightarrow> f c < f a"
  shows "\<exists>pre post. best # ws = pre @ pick_first better best ws # post \<and>
           (\<forall>x\<in>set pre. f x < f (pick_first better best ws)) \<and>
           (\<forall>x\<in>set post. f x \<le> f (pick_first better best ws))"
proof (induction ws arbitrary: best)
  case Nil
  show ?case by (intro exI [of _ "[]"]) simp
next
  case (Cons w ws)
  show ?case
  proof (cases "better w best")
    case True
    define r where "r = pick_first better w ws"
    have pf: "pick_first better best (w # ws) = r" using True by (simp add: r_def)
    from Cons [of w] obtain pre post where
      s: "w # ws = pre @ r # post" and
      lo: "\<forall>x\<in>set pre. f x < f r" and hi: "\<forall>x\<in>set post. f x \<le> f r"
      unfolding r_def by blast
    from True have lt: "f best < f w" by (simp add: b)
    have "w \<in> set (pre @ r # post)" unfolding s [symmetric] by simp
    then have "f w \<le> f r" using lo hi by auto
    with lt have "f best < f r" by simp
    with lo have "\<forall>x\<in>set (best # pre). f x < f r" by simp
    moreover have "best # w # ws = (best # pre) @ r # post" using s by simp
    ultimately show ?thesis unfolding pf using hi by blast
  next
    case False
    define r where "r = pick_first better best ws"
    have pf: "pick_first better best (w # ws) = r" using False by (simp add: r_def)
    from Cons [of best] obtain pre post where
      s: "best # ws = pre @ r # post" and
      lo: "\<forall>x\<in>set pre. f x < f r" and hi: "\<forall>x\<in>set post. f x \<le> f r"
      unfolding r_def by blast
    from False have le: "f w \<le> f best" by (simp add: b not_less)
    show ?thesis
    proof (cases pre)
      case Nil
      with s have e: "r = best" "ws = post" by simp_all
      have "best # w # ws = [] @ r # (w # post)" using e by simp
      moreover have "\<forall>x\<in>set (w # post). f x \<le> f r" using hi le e(1) by simp
      moreover have "\<forall>x\<in>set ([] :: num list). f x < f r" by simp
      ultimately show ?thesis unfolding pf by blast
    next
      case (Cons p ps)
      with s have e: "p = best" "ws = ps @ r # post" by simp_all
      have "f best < f r" using lo Cons e(1) by simp
      with le have "f w < f r" by simp
      with lo Cons e(1) have "\<forall>x\<in>set (best # w # ps). f x < f r" by simp
      moreover have "best # w # ws = (best # w # ps) @ r # post" using e(2) by simp
      ultimately show ?thesis unfolding pf using hi by blast
    qed
  qed
qed

text \<open>So the first entry of a series equal to its maximum is the maximum itself, the
  very float that \<open>max()\<close> returns; likewise for the minimum.\<close>

lemma pick_first_heads_equals:
  fixes f :: "num \<Rightarrow> 'a::linorder"
  assumes b: "\<And>a c. better a c \<longleftrightarrow> f c < f a"
  shows "\<exists>rest. filter (\<lambda>x. f x = f (pick_first better best ws)) (best # ws)
           = pick_first better best ws # rest"
proof -
  from pick_first_split [of better f best ws, OF b] obtain pre post where
    s: "best # ws = pre @ pick_first better best ws # post" and
    lo: "\<forall>x\<in>set pre. f x < f (pick_first better best ws)"
    by blast
  have "filter (\<lambda>x. f x = f (pick_first better best ws)) pre = []"
    using lo by (auto simp: filter_empty_conv)
  then show ?thesis unfolding s by simp
qed

lemma pick_first_mem: "pick_first better best ws \<in> set (best # ws)"
  by (induction ws arbitrary: best) auto

lemma float_eq_heads:
  fixes f :: "num \<Rightarrow> 'a::linorder"
  assumes b: "\<And>a c. better a c \<longleftrightarrow> f c < f a"
    and inj: "\<And>a c. f a = f c \<longleftrightarrow> rank a = rank c"
    and m: "m = (case filter (\<lambda>v. v \<noteq> NaN) vs of [] \<Rightarrow> NaN | v # ws \<Rightarrow> pick_first better v ws)"
  shows "filter (\<lambda>x. float_eq x m) vs = [] \<or> (\<exists>rest. filter (\<lambda>x. float_eq x m) vs = m # rest)"
proof (cases "filter (\<lambda>v. v \<noteq> NaN) vs")
  case Nil
  then have "m = NaN" using m by simp
  then show ?thesis by (simp add: float_eq_def)
next
  case (Cons v ws)
  then have mv: "m = pick_first better v ws" using m by simp
  have "m \<in> set (v # ws)" unfolding mv by (rule pick_first_mem)
  then have "m \<in> set (filter (\<lambda>v. v \<noteq> NaN) vs)" using Cons by simp
  then have nn: "m \<noteq> NaN" by simp
  have "filter (\<lambda>x. float_eq x m) vs = filter (\<lambda>x. f x = f m) (filter (\<lambda>v. v \<noteq> NaN) vs)"
    using nn by (auto simp: float_eq_def inj intro: filter_cong)
  also have "\<dots> = filter (\<lambda>x. f x = f (pick_first better v ws)) (v # ws)"
    by (simp add: Cons mv)
  finally show ?thesis
    using pick_first_heads_equals [of better f v ws, OF b] by (auto simp: mv)
qed

lemma rank_order_max: "(\<lambda>a c. rank c < rank a) a c \<longleftrightarrow> rank c < rank a"
  by simp

lemma rank_order_min:
  "rank a < rank c \<longleftrightarrow> (- fst (rank c), - snd (rank c)) < (- fst (rank a), - snd (rank a))"
  by (cases "rank a"; cases "rank c") auto

lemma rank_neg_inj:
  "(- fst (rank a), - snd (rank a)) = (- fst (rank c), - snd (rank c)) \<longleftrightarrow> rank a = rank c"
  by (cases "rank a"; cases "rank c") auto

lemma first_label_value:
  assumes d: "distinct (map fst s)"
    and h: "filter (\<lambda>x. float_eq x m) (map snd s) = [] \<or>
            (\<exists>rest. filter (\<lambda>x. float_eq x m) (map snd s) = m # rest)"
    and l: "first_label s m = Inr k"
  shows "series_get s k = Inr m"
proof -
  from l obtain kv rest where f: "filter (\<lambda>kv. float_eq (snd kv) m) s = kv # rest"
    and k: "k = fst kv"
    by (auto simp: first_label_def split: list.splits)
  have "map snd (filter (\<lambda>kv. float_eq (snd kv) m) s) = filter (\<lambda>x. float_eq x m) (map snd s)"
    by (simp add: filter_map o_def)
  with f have "filter (\<lambda>x. float_eq x m) (map snd s) = snd kv # map snd rest" by simp
  with h have v: "snd kv = m" by auto
  have "kv \<in> set (filter (\<lambda>kv. float_eq (snd kv) m) s)" by (simp add: f)
  then have "kv \<in> set s" by simp
  moreover have "kv = (k, m)" using k v by (cases kv) simp
  ultimately have "(k, m) \<in> set s" by simp
  with d show ?thesis by (simp add: series_get_def)
qed

lemma idxmax_value:
  assumes "distinct (map fst s)" and "idxmax s = Inr k"
  shows "series_get s k = Inr (values_max (map snd s))"
  using assms(1) _ assms(2) [unfolded idxmax_def]
proof (rule first_label_value)
  show "filter (\<lambda>x. float_eq x (values_max (map snd s))) (map snd s) = [] \<or>
        (\<exists>rest. filter (\<lambda>x. float_eq x (values_max (map snd s))) (map snd s)
           = values_max (map snd s) # rest)"
    by (rule float_eq_heads [where f = rank and better = "\<lambda>a c. rank c < rank a"])
      (simp_all add: values_max_def)
qed

lemma idxmin_value:
  assumes "distinct (map fst s)" and "idxmin s = Inr k"
  shows "series_get s k = Inr (values_min (map snd s))"
  using assms(1) _ assms(2) [unfolded idxmin_def]
proof (rule first_label_value)
  show "filter (\<lambda>x. float_eq x (values_min (map snd s))) (map snd s) = [] \<or>
        (\<exists>rest. filter (\<lambda>x. float_eq x (values_min (map snd s))) (map snd s)
           = values_min (map snd s) # rest)"
  proof (rule float_eq_heads [where f = "\<lambda>v. (- fst (rank v), - snd (rank v))"
        and better = "\<lambda>a c. rank a < rank c"])
    show "\<And>a c. rank a < rank c
            \<longleftrightarrow> (- fst (rank c), - snd (rank c)) < (- fst (rank a), - snd (rank a))"
      by (rule rank_order_min)
    show "\<And>a c. (- fst (rank a), - snd (rank a)) = (- fst (rank c), - snd (rank c))
            \<longleftrightarrow> rank a = rank c"
      by (rule rank_neg_inj)
    show "values_min (map snd s)
            = (case filter (\<lambda>v. v \<noteq> NaN) (map snd s) of [] \<Rightarrow> NaN
               | v # ws \<Rightarrow> pick_first (\<lambda>a c. rank a < rank c) v ws)"
      by (simp add: values_min_def)
  qed
qed

lemma usage_extremes_values:
  assumes d: "distinct (map fst s)" and u: "usage_extremes s = Inr (mx, mn)"
  shows "snd mx = format_number (values_max (map snd s)) \<and>
         snd mn = format_number (values_min (map snd s))"
proof -
  from u obtain k1 k2 v1 v2 where
    i1: "idxmax s = Inr k1" and i2: "idxmin s = Inr k2" and
    g1: "series_get s k1 = Inr v1" and g2: "series_get s k2 = Inr v2" and
    r: "mx = (k1, format_number v1)" "mn = (k2, format_number v2)"
    unfolding usage_extremes_def bind_err_Inr by auto
  have "v1 = values_max (map snd s)" using idxmax_value [OF d i1] g1 by simp
  moreover have "v2 = values_min (map snd s)" using idxmin_value [OF d i2] g2 by simp
  ultimately show ?thesis using r by simp
qed

lemma weekday_extremes_values:
  "weekday_extremes s = Inr (mx, mn) \<Longrightarrow>
     snd mx = format_number (values_max (map snd s)) \<and>
     snd mn = format_number (values_min (map snd s))"
  unfolding weekday_extremes_def bind_err_Inr by auto

lemma distinct_groupby_keys: "distinct (map fst (groupby_sum key col df))"
  by (simp add: groupby_sum_def group_keys_def o_def)

text \<open>What a completed run of \<open>main\<close> displays, field by field.\<close>

lemma main_success:
  assumes "main csv year_filter month_filter day_filter = Inr rep"
  shows "\<exists>years months hours weekdays.
           usage_extremes (groupby_sum Year Total
             (filter_data (load_data csv) year_filter month_filter day_filter)) = Inr years \<and>
           usage_extremes (groupby_sum Month Total
             (filter_data (load_data csv) year_filter month_filter day_filter)) = Inr months \<and>
           usage_extremes (groupby_sum (\<lambda>r. dt_hour (DateTime r)) Total
             (filter_data (load_data csv) year_filter month_filter day_filter)) = Inr hours \<and>
           weekday_extremes (weekday_usage
             (filter_data (load_data csv) year_filter month_filter day_filter)) = Inr weekdays \<and>
           max_datetime (filter_data (load_data csv) year_filter month_filter day_filter)
             = Inr (fst (max_datetime_line rep)) \<and>
           peak_hour_freq (filter_data (load_data csv) year_filter month_filter day_filter)
             = Inr (peak_hour_line rep) \<and>
           total_energy_metric rep = total_energy_display
             (filter_data (load_data csv) year_filter month_filter day_filter) \<and>
           avg_energy_metric rep = avg_energy_display
             (filter_data (load_data csv) year_filter month_filter day_filter) \<and>
           yearly_bar_labels rep = bar_labels (groupby_sum Year Total
             (filter_data (load_data csv) year_filter month_filter day_filter)) \<and>
           max_year_line rep = fst years \<and> min_year_line rep = snd years \<and>
           snd (max_month_line rep) = snd (fst months) \<and>
           snd (min_month_line rep) = snd (snd months) \<and>
           max_hour_line rep = fst hours \<and> min_hour_line rep = snd hours \<and>
           snd (max_datetime_line rep) = format_number (series_max (map Total
             (filter_data (load_data csv) year_filter month_filter day_filter))) \<and>
           rate_lines rep = rate_stats
             (filter_data (load_data csv) year_filter month_filter day_filter) \<and>
           max_weekday_line rep = fst weekdays \<and> min_weekday_line rep = snd weekdays"
proof -
  obtain header where "dynamic_header year_filter = Some header"
    using assms by (cases "dynamic_header year_filter") (simp_all add: main_def Let_def)
  with assms show ?thesis
    unfolding main_def Let_def by (auto simp: bind_err_Inr)
qed

text \<open>
  Claim C7, as the code has it. On a run that completes, the overall Total Energy metric
  is the sum rendered with thousands separators and two decimals, without \<open>K\<close> or \<open>M\<close>
  scaling. Every other magnitude of the page's text is \<open>format_number\<close> of its value:
  the average per interval, the label over each bar of the yearly chart, the largest and
  smallest yearly, monthly, hourly and weekday totals, the largest \<open>Total\<close>, and the
  maximum, minimum, mean and standard deviation of each rate.
\<close>

theorem report_magnitudes:
  assumes "main csv year_filter month_filter day_filter = Inr rep"
  shows "total_energy_metric rep =
           format_comma_2f (series_sum (map Total
             (filter_data (load_data csv) year_filter month_filter day_filter))) \<and>
         avg_energy_metric rep =
           format_number (series_mean (map Total
             (filter_data (load_data csv) year_filter month_filter day_filter))) \<and>
         yearly_bar_labels rep =
           map (\<lambda>kv. (fst kv, format_number (snd kv)))
             (groupby_sum Year Total
               (filter_data (load_data csv) year_filter month_filter day_filter)) \<and>
         snd (max_year_line rep) =
           format_number (values_max (map snd (groupby_sum Year Total
             (filter_data (load_data csv) year_filter month_filter day_filter)))) \<and>
         snd (min_year_line rep) =
           format_number (values_min (map snd (groupby_sum Year Total
             (filter_data (load_data csv) year_filter month_filter day_filter)))) \<and>
         snd (max_month_line rep) =
           format_number (values_max (map snd (groupby_sum Month Total
             (filter_data (load_data csv) year_filter month_filter day_filter)))) \<and>
         snd (min_month_line rep) =
           format_number (values_min (map snd (groupby_sum Month Total
             (filter_data (load_data csv) year_filter month_filter day_filter)))) \<and>
         snd (max_hour_line rep) =
           format_number (values_max (map snd (groupby_sum (\<lambda>r. dt_hour (DateTime r)) Total
             (filter_data (load_data csv) year_filter month_filter day_filter)))) \<and>
         snd (min_hour_line rep) =
           format_number (values_min (map snd (groupby_sum (\<lambda>r. dt_hour (DateTime r)) Total
             (filter_data (load_data csv) year_filter month_filter day_filter)))) \<and>
         snd (max_datetime_line rep) =
           format_number (series_max (map Total
             (filter_data (load_data csv) year_filter month_filter day_filter))) \<and>
         rate_lines rep =
           map (\<lambda>rc. (fst rc, format_number (series_max (snd rc)), format_number (series_min (snd rc)),
                      format_number (series_mean (snd rc)), format_number (series_std (snd rc))))
             [(''RATE A'', map RATE_A (filter_data (load_data csv) year_filter month_filter day_filter)),
              (''RATE B'', map RATE_B (filter_data (load_data csv) year_filter month_filter day_filter)),
              (''RATE C'', map RATE_C (filter_data (load_data csv) year_filter month_filter day_filter))] \<and>
         snd (max_weekday_line rep) =
           format_number (values_max (map snd (weekday_usage
             (filter_data (load_data csv) year_filter month_filter day_filter)))) \<and>
         snd (min_weekday_line rep) =
           format_number (values_min (map snd (weekday_usage
             (filter_data (load_data csv) year_filter month_filter day_filter))))"
proof -
  let ?fd = "filter_data (load_data csv) year_filter month_filter day_filter"
  from main_success [OF assms] obtain years months hours weekdays where
    y: "usage_extremes (groupby_sum Year Total ?fd) = Inr years" and
    m: "usage_extremes (groupby_sum Month Total ?fd) = Inr months" and
    h: "usage_extremes (groupby_sum (\<lambda>r. dt_hour (DateTime r)) Total ?fd) = Inr hours" and
    w: "weekday_extremes (weekday_usage ?fd) = Inr weekdays" and
    shown: "total_energy_metric rep = total_energy_display ?fd"
      "avg_energy_metric rep = avg_energy_display ?fd"
      "yearly_bar_labels rep = bar_labels (groupby_sum Year Total ?fd)"
      "max_year_line rep = fst years" "min_year_line rep = snd years"
      "snd (max_month_line rep) = snd (fst months)"
      "snd (min_month_line rep) = snd (snd months)"
      "max_hour_line rep = fst hours" "min_hour_line rep = snd hours"
      "snd (max_datetime_line rep) = format_number (series_max (map Total ?fd))"
      "rate_lines rep = rate_stats ?fd"
      "max_weekday_line rep = fst weekdays" "min_weekday_line rep = snd weekdays"
    by blast
  have ys: "snd (fst years) = format_number (values_max (map snd (groupby_sum Year Total ?fd)))"
           "snd (snd years) = format_number (values_min (map snd (groupby_sum Year Total ?fd)))"
    using usage_extremes_values [OF distinct_groupby_keys, of Year Total ?fd "fst years" "snd years"] y
    by simp_all
  have ms: "snd (fst months) = format_number (values_max (map snd (groupby_sum Month Total ?fd)))"
           "snd (snd months) = format_number (values_min (map snd (groupby_sum Month Total ?fd)))"
    using usage_extremes_values [OF distinct_groupby_keys, of Month Total ?fd "fst months" "snd months"] m
    by simp_all
  have hs: "snd (fst hours) = format_number (values_max (map snd
              (groupby_sum (\<lambda>r. dt_hour (DateTime r)) Total ?fd)))"
           "snd (snd hours) = format_number (values_min (map snd
              (groupby_sum (\<lambda>r. dt_hour (DateTime r)) Total ?fd)))"
    using usage_extremes_values [OF distinct_groupby_keys, of "\<lambda>r. dt_hour (DateTime r)" Total ?fd
        "fst hours" "snd hours"] h
    by simp_all
  have ws: "snd (fst weekdays) = format_number (values_max (map snd (weekday_usage ?fd)))"
           "snd (snd weekdays) = format_number (values_min (map snd (weekday_usage ?fd)))"
    using weekday_extremes_values [of "weekday_usage ?fd" "fst weekdays" "snd weekdays"] w
    by simp_all
  show ?thesis
    by (simp add: shown ys ms hs ws total_energy_display_def avg_energy_display_def bar_labels_def
        rate_stats_def rate_line_def)
qed

section \<open>The report on the small datasets\<close>

text \<open>Small whole numbers are floats, so the sums of the small datasets are exact.\<close>

lemma round_float64_numeral:
  "numeral k \<le> (2 :: int) ^ 53 \<Longrightarrow> round_float64 (numeral k) = Fin (numeral k)"
  using round_float64_of_int [of "numeral k"] by simp

lemmas sum_defs = groupby_sum_def group_keys_def series_sum_def sum_nums_def round_float64_numeral

lemma example_yearly:
  "groupby_sum Year Total (load_data example_csv) = [(2020, Fin 30), (2021, Fin 25)]"
  by (simp add: sum_defs example_defs)

lemma example_monthly:
  "groupby_sum Month Total (load_data example_csv) = [(1, Fin 30), (2, Fin 20), (3, Fin 5)]"
  by (simp add: sum_defs example_defs)

lemma example_hourly:
  "groupby_sum (\<lambda>r. dt_hour (DateTime r)) Total (load_data example_csv)
     = [(3, Fin 35), (5, Fin 20)]"
  by (simp add: sum_defs example_defs)

lemma example_days_of_week:
  "map (\<lambda>r. day_of_week (DateTime r)) (load_data example_csv) = [0, 1, 0, 1]"
  by (simp add: example_defs day_of_week_def month_offset_def)

lemma example_day_names:
  "map (\<lambda>r. day_name (DateTime r)) (load_data example_csv)
     = [''Sunday'', ''Monday'', ''Sunday'', ''Monday'']"
proof -
  have "map (\<lambda>r. day_name (DateTime r)) (load_data example_csv)
          = map (\<lambda>n. [''Sunday'', ''Monday'', ''Tuesday'', ''Wednesday'', ''Thursday'',
                       ''Friday'', ''Saturday''] ! n)
              (map (\<lambda>r. day_of_week (DateTime r)) (load_data example_csv))"
    by (simp add: day_name_def o_def)
  then show ?thesis
    unfolding example_days_of_week by simp
qed

lemma example_weekdays:
  "weekday_usage (load_data example_csv) = [(''Sunday'', Fin 30), (''Monday'', Fin 25)]"
proof -
  have "groupby_sum fst snd
          [(''Sunday'', 10), (''Monday'', 20), (''Sunday'', 20), (''Monday'', 5)]
        = [(''Monday'', Fin 25), (''Sunday'', Fin 30)]"
    by (simp add: sum_defs)
  then show ?thesis
    unfolding weekday_usage_def
    by (subst groupby_sum_zip)
      (simp add: example_day_names example_totals sort_values_desc_def desc_key_def)
qed

lemmas extreme_defs =
  usage_extremes_def weekday_extremes_def idxmax_def idxmin_def first_label_def values_max_def
  values_min_def float_eq_def series_get_def bind_err_def

lemma example_main_succeeds: "\<not> isl (main example_csv [2020, 2021] [1, 2, 3] (1, 31))"
  unfolding main_def Let_def example_all_pass
  by (simp add: dynamic_header_def example_yearly
      example_monthly example_hourly example_weekdays example_max_datetime extreme_defs)

text \<open>On the small dataset with everything selected the page shows a total of
  \<open>55.00\<close> and an average of \<open>13.75\<close>.\<close>

theorem report_magnitudes_witness:
  "\<not> isl (main example_csv [2020, 2021] [1, 2, 3] (1, 31)) \<and>
   total_energy_metric (projr (main example_csv [2020, 2021] [1, 2, 3] (1, 31))) = ''55.00'' \<and>
   avg_energy_metric (projr (main example_csv [2020, 2021] [1, 2, 3] (1, 31))) = ''13.75'' \<and>
   snd (max_year_line (projr (main example_csv [2020, 2021] [1, 2, 3] (1, 31)))) = ''30.00'' \<and>
   snd (min_hour_line (projr (main example_csv [2020, 2021] [1, 2, 3] (1, 31)))) = ''20.00''"
proof -
  have h: "main example_csv [2020, 2021] [1, 2, 3] (1, 31)
             = Inr (projr (main example_csv [2020, 2021] [1, 2, 3] (1, 31)))"
    using example_main_succeeds by simp
  have q: "round_float64 (55 / 4) = Fin (55 / 4)"
    by (simp add: float_eval)
  have t: "series_sum (map Total (load_data example_csv)) = Fin 55"
    and a: "series_mean (map Total (load_data example_csv)) = Fin (55 / 4)"
    unfolding example_totals by (simp_all add: series_mean_def sum_defs q)
  have f: "fixed2_grouped 55 = ''55.00''" "format_number (Fin (55 / 4)) = ''13.75''"
    "format_number (Fin 30) = ''30.00''" "format_number (Fin 20) = ''20.00''"
    by (simp_all add: format_number_def render_defs)
  from report_magnitudes [OF h, unfolded example_all_pass] example_main_succeeds show ?thesis
    by (simp add: example_yearly example_hourly t a f values_max_def values_min_def)
qed

lemma peak_all_pass: "filter_data (load_data peak_csv) [2020] [1] (1, 31) = load_data peak_csv"
  by (simp add: filter_data_eq_filter passes_def example_defs peak_csv_def)

lemma groupby_sum_single: "groupby_sum key col [r] = [(key r, series_sum [col r])]"
  by (simp add: groupby_sum_def group_keys_def)

lemma peak_total:
  assumes "load_data peak_csv = [r]"
  shows "series_sum [Total r] = Fin 5000"
proof -
  have "map Total (load_data peak_csv) = [5000]"
    by (simp add: example_defs peak_csv_def)
  with assms have "Total r = 5000" by simp
  then show ?thesis by (simp add: sum_defs)
qed

lemma peak_rows: "\<exists>r. load_data peak_csv = [r]"
  by (simp add: load_data_def peak_csv_def)

lemma peak_main_succeeds: "\<not> isl (main peak_csv [2020] [1] (1, 31))"
proof -
  obtain r where r: "load_data peak_csv = [r]" using peak_rows by blast
  show ?thesis
    unfolding main_def Let_def peak_all_pass
    by (simp add: dynamic_header_def r groupby_sum_single peak_total [OF r] series_max_def
        weekday_usage_def sort_values_desc_def extreme_defs max_datetime_def max_total_row_def
        iloc0_def peak_hour_freq_def mode0_def series_mode_def max_count_def)
qed

text \<open>
  Claim C7 as stated fails on the Total Energy metric: for a single reading of 5,000 the
  page shows \<open>5,000.00\<close>, where \<open>format_number\<close> of the sum is \<open>5.00K\<close>.
\<close>

theorem total_energy_not_scaled:
  "\<not> isl (main peak_csv [2020] [1] (1, 31)) \<and>
   total_energy_metric (projr (main peak_csv [2020] [1] (1, 31))) = ''5,000.00'' \<and>
   format_number (series_sum (map Total (filter_data (load_data peak_csv) [2020] [1] (1, 31))))
     = ''5.00K''"
proof -
  obtain r where r: "load_data peak_csv = [r]" using peak_rows by blast
  have t: "series_sum (map Total (load_data peak_csv)) = Fin 5000"
    using peak_total [OF r] by (simp add: r)
  have f: "fixed2_grouped 5000 = ''5,000.00''" "format_number (Fin 5000) = ''5.00K''"
    by (simp_all add: format_number_def example_quotients render_defs)
  have "total_energy_metric (projr (main peak_csv [2020] [1] (1, 31)))
          = total_energy_display (load_data peak_csv)"
    unfolding main_def Let_def peak_all_pass
    by (simp add: dynamic_header_def r groupby_sum_single peak_total [OF r] series_max_def
        weekday_usage_def sort_values_desc_def extreme_defs max_datetime_def max_total_row_def
        iloc0_def peak_hour_freq_def mode0_def series_mode_def max_count_def)
  with peak_main_succeeds show ?thesis
    unfolding peak_all_pass by (simp add: total_energy_display_def t f)
qed

text \<open>
  Claim C1. The claim asks that the report over an empty filtered dataset does not raise.
  The code raises: with no year selected, at the first use of \<open>start_year\<close>; with
  years selected but no row passing, at \<open>idxmax\<close> of the empty yearly series. The
  timestamp lookup, the peak-hour mode and the weekday extremes raise on the empty
  dataset as well; only the mean is a defined value, shown as \<open>nan\<close>.
\<close>

theorem empty_selection_raises:
  "main example_csv [] [1, 2, 3] (1, 31) = Inl UnboundLocalError \<and>
   main example_csv [2020, 2021] [] (1, 31) = Inl ValueError \<and>
   max_datetime (filter_data (load_data example_csv) [2020, 2021] [] (1, 31)) = Inl IndexError \<and>
   peak_hour_freq (filter_data (load_data example_csv) [2020, 2021] [] (1, 31)) = Inl KeyError \<and>
   weekday_extremes (weekday_usage (filter_data (load_data example_csv) [2020, 2021] [] (1, 31)))
     = Inl ValueError \<and>
   avg_energy_display (filter_data (load_data example_csv) [2020, 2021] [] (1, 31)) = ''nan''"
proof -
  have e1: "filter_data (load_data example_csv) [] [1, 2, 3] (1, 31) = []"
    and e2: "filter_data (load_data example_csv) [2020, 2021] [] (1, 31) = []"
    by (simp_all add: filter_data_eq_filter passes_def)
  show ?thesis
    using main_empty_selection [OF e1] main_empty_selection [OF e2]
    unfolding e2
    by (simp add: max_datetime_def max_total_row_def iloc0_def peak_hour_freq_def mode0_def
        series_mode_def weekday_usage_def sort_values_desc_def weekday_extremes_def idxmax_def
        first_label_def values_max_def avg_energy_display_def series_mean_def format_number_def)
qed


text \<open>Rounding shows in the mean: for cells 1 and the float nearest to 1.01 the float
  mean lies just below 1.005, and \<open>1.00\<close> is displayed.\<close>

lemma mean_rounds_down:
  "format_number (series_mean [1, 4548635623644201 / 2 ^ 52]) = ''1.00''"
  by (simp add: series_mean_def series_sum_def sum_nums_def format_number_def float_eval
      render_defs)

end
